theory Spec2Isabelle
  imports Main "HOL-Library.Sublist"
begin

section \<open>The generated browser scenarios of \<open>testsprite_tests\<close>\<close>

text \<open>
  Every file of \<open>testsprite_tests\<close> is one straight-line Playwright script with the same
  skeleton:
  \<^verbatim>\<open>
  async def run_test():
      pw = None; browser = None; context = None
      try:
          <session set-up, lines 11-45, the same in the four files>
          <the scenario's actions>
          <the terminal assertion>
          await asyncio.sleep(5)
      finally:
          if context: await context.close()
          if browser: await browser.close()
          if pw: await pw.stop()
  asyncio.run(run_test())
  \<close>
  The browser, the driver process and the application under test are outside the
  repository. They are an environment that answers every call the script makes: with a
  duration, or with a fault. All theorems quantify over that environment.
\<close>

subsection \<open>Exceptions\<close>

datatype exn =
    PlaywrightError
  | PlaywrightTimeoutError
  | AssertionError string
  | NameError string
  | IndexError
  | SyntaxError
  | DriverFailure

text \<open>
  The two handler classes the scripts use: \<open>except async_api.Error\<close> and
  \<open>except AssertionError\<close>. Playwright's \<open>TimeoutError\<close> is a subclass of its \<open>Error\<close>;
  \<open>NameError\<close> is a subclass of neither.
\<close>

datatype exn_class = PlaywrightErrorClass | AssertionErrorClass

fun isinstance :: "exn \<Rightarrow> exn_class \<Rightarrow> bool" where
  "isinstance PlaywrightError PlaywrightErrorClass = True"
| "isinstance PlaywrightTimeoutError PlaywrightErrorClass = True"
| "isinstance (AssertionError m) AssertionErrorClass = True"
| "isinstance _ _ = False"

subsection \<open>Calls, statements\<close>

text \<open>
  One constructor for each call form that occurs in the four files, with the arguments
  the source passes. \<open>ExpectVisible f sel t\<close> is
  \<open>await f(frame.locator(sel).first).to_be_visible(timeout=t)\<close>, with \<open>f\<close> the name the source
  applies; \<open>AssertIsVisible m\<close> is \<open>assert await elem.is_visible(), m\<close>.
\<close>

datatype call =
    StartPlaywright
  | LaunchChromium bool "string list"
  | NewContext
  | SetDefaultTimeout nat
  | NewPage
  | Goto string string nat
  | WaitForLoadState string nat
  | FrameWaitForLoadState string nat
  | LastPage
  | Locator string
  | WaitForTimeout nat
  | Fill string
  | Click nat
  | WaitFor string nat
  | AssertIsVisible string
  | ExpectVisible string string nat
  | Sleep nat
  | CloseContext
  | CloseBrowser
  | StopPlaywright

datatype resource = Driver | Browser | Context

datatype handler = Pass | Raise exn

text \<open>
  \<open>IfSet r c\<close> is \<open>if v: await c\<close> for the variable \<open>v\<close> that holds resource \<open>r\<close>
  (\<open>pw\<close>, \<open>browser\<close>, \<open>context\<close>).
\<close>

datatype guarded =
    Exec call
  | TryExcept call exn_class handler
  | IfSet resource call

datatype stmt = Single guarded | ForEachFrame guarded

subsection \<open>The environment\<close>

text \<open>
  The environment answers the \<open>n\<close>-th call of a run: it returns after some milliseconds,
  or fails after some milliseconds, with a Playwright error (\<open>PageFault\<close>: target closed,
  element detached, ...) or with an exception that is not a Playwright error (\<open>Crash\<close>: the
  driver connection broke). \<open>visible n\<close> is what \<open>is_visible()\<close> returns at call \<open>n\<close>, and
  \<open>frames\<close> the length of \<open>page.frames\<close>.
\<close>

datatype fault = PageFault | Crash

datatype reply = Returns nat | Fails fault nat

record env =
  answer :: "nat \<Rightarrow> reply"
  visible :: "nat \<Rightarrow> bool"
  frames :: nat

fun exn_of :: "fault \<Rightarrow> exn" where
  "exn_of PageFault = PlaywrightError"
| "exn_of Crash = DriverFailure"

text \<open>
  A call under a timeout of \<open>t\<close> ms raises Playwright's \<open>TimeoutError\<close> at \<open>t\<close> when the
  environment has not answered by then; without a timeout it lasts as long as the
  environment takes.
\<close>

fun settle :: "nat option \<Rightarrow> reply \<Rightarrow> exn option \<times> nat" where
  "settle None (Returns d) = (None, d)"
| "settle None (Fails f d) = (Some (exn_of f), d)"
| "settle (Some t) (Returns d) =
     (if d \<le> t then (None, d) else (Some PlaywrightTimeoutError, t))"
| "settle (Some t) (Fails f d) =
     (if d \<le> t then (Some (exn_of f), d) else (Some PlaywrightTimeoutError, t))"

text \<open>
  \<open>page.wait_for_timeout(n)\<close> lasts its full duration, unless a fault ends it earlier.
  \<open>asyncio.sleep(s)\<close> is no browser call: it lasts \<open>s\<close> seconds and raises nothing.
\<close>

fun pause :: "nat \<Rightarrow> reply \<Rightarrow> exn option \<times> nat" where
  "pause n (Returns d) = (None, n)"
| "pause n (Fails f d) = (if d < n then (Some (exn_of f), d) else (None, n))"

subsection \<open>State of a run\<close>

record event =
  call :: call
  target :: "string option"
  bound :: "nat option"
  took :: nat
  result :: "exn option"

text \<open>
  \<open>pw_var\<close>, \<open>browser_var\<close>, \<open>context_var\<close>: whether the local variable holds an object
  (it starts as \<open>None\<close>); \<open>elem\<close>: the selector of the current locator; \<open>default_timeout\<close>:
  the value given to \<open>context.set_default_timeout\<close>, if it was called; \<open>live\<close>: the resources
  allocated and not yet closed; \<open>trace\<close>: every call attempted so far, in order.
\<close>

record state =
  pw_var :: bool
  browser_var :: bool
  context_var :: bool
  elem :: "string option"
  default_timeout :: "nat option"
  live :: "resource set"
  clock :: nat
  trace :: "event list"

definition initial :: state where
  "initial = \<lparr>pw_var = False, browser_var = False, context_var = False, elem = None,
     default_timeout = None, live = {}, clock = 0, trace = []\<rparr>"

text \<open>
  The timeout in force at a call: the one written at the call, or for \<open>fill\<close>, which the
  source calls without one, the session default. The session calls
  (\<open>start\<close>, \<open>launch\<close>, \<open>new_context\<close>, \<open>new_page\<close>, \<open>close\<close>, \<open>stop\<close>) take none in the source, and
  \<open>is_visible\<close> is a query that does not wait.
\<close>

fun timeout_of :: "nat option \<Rightarrow> call \<Rightarrow> nat option" where
  "timeout_of dflt (Goto url w t) = Some t"
| "timeout_of dflt (WaitForLoadState s t) = Some t"
| "timeout_of dflt (FrameWaitForLoadState s t) = Some t"
| "timeout_of dflt (WaitForTimeout n) = Some n"
| "timeout_of dflt (Fill txt) = dflt"
| "timeout_of dflt (Click t) = Some t"
| "timeout_of dflt (WaitFor s t) = Some t"
| "timeout_of dflt (ExpectVisible f sel t) = Some t"
| "timeout_of dflt (Sleep s) = Some (1000 * s)"
| "timeout_of dflt c = None"

fun acquires :: "call \<Rightarrow> resource option" where
  "acquires StartPlaywright = Some Driver"
| "acquires (LaunchChromium h args) = Some Browser"
| "acquires NewContext = Some Context"
| "acquires c = None"

fun releases :: "call \<Rightarrow> resource option" where
  "releases CloseContext = Some Context"
| "releases CloseBrowser = Some Browser"
| "releases StopPlaywright = Some Driver"
| "releases c = None"

fun holds :: "state \<Rightarrow> resource \<Rightarrow> bool" where
  "holds st Driver = pw_var st"
| "holds st Browser = browser_var st"
| "holds st Context = context_var st"

fun assign :: "resource \<Rightarrow> state \<Rightarrow> state" where
  "assign Driver st = st\<lparr>pw_var := True\<rparr>"
| "assign Browser st = st\<lparr>browser_var := True\<rparr>"
| "assign Context st = st\<lparr>context_var := True\<rparr>"

text \<open>What a call that returned changes.\<close>

definition effect :: "call \<Rightarrow> state \<Rightarrow> state" where
  "effect c st =
     (case acquires c of
        Some r \<Rightarrow> assign r (st\<lparr>live := insert r (live st)\<rparr>)
      | None \<Rightarrow>
        (case releases c of
           Some r \<Rightarrow> st\<lparr>live := live st - {r}\<rparr>
         | None \<Rightarrow>
           (case c of
              SetDefaultTimeout t \<Rightarrow> st\<lparr>default_timeout := Some t\<rparr>
            | Locator sel \<Rightarrow> st\<lparr>elem := Some sel\<rparr>
            | _ \<Rightarrow> st)))"

text \<open>
  The outcome of one call and the time it takes. \<open>scope\<close> holds the names bound in the
  module: applying a name that is not bound raises \<open>NameError\<close> before anything is sent to
  the browser. Playwright's \<open>expect(...).to_be_visible\<close> raises \<open>AssertionError\<close> when its
  timeout passes.
\<close>

definition expect_message :: string where
  "expect_message = ''Locator expected to be visible''"

fun attempt :: "string list \<Rightarrow> env \<Rightarrow> nat \<Rightarrow> nat option \<Rightarrow> call \<Rightarrow> exn option \<times> nat" where
  "attempt scope env n b (ExpectVisible f sel t) =
     (if f \<in> set scope then
        (case settle b (answer env n) of
           (Some PlaywrightTimeoutError, d) \<Rightarrow> (Some (AssertionError expect_message), d)
         | (r, d) \<Rightarrow> (r, d))
      else (Some (NameError f), 0))"
| "attempt scope env n b (AssertIsVisible m) =
     (case settle b (answer env n) of
        (None, d) \<Rightarrow> (if visible env n then None else Some (AssertionError m), d)
      | (Some e, d) \<Rightarrow> (Some e, d))"
| "attempt scope env n b (WaitForTimeout ms) = pause ms (answer env n)"
| "attempt scope env n b (Sleep s) = (None, 1000 * s)"
| "attempt scope env n b (SetDefaultTimeout t) = (None, 0)"
| "attempt scope env n b (Locator sel) = (None, 0)"
| "attempt scope env n b LastPage =
     (case answer env n of Returns d \<Rightarrow> (None, 0) | Fails f d \<Rightarrow> (Some IndexError, 0))"
| "attempt scope env n b c = settle b (answer env n)"

definition record_event :: "call \<Rightarrow> exn option \<times> nat \<Rightarrow> state \<Rightarrow> state" where
  "record_event c rd st =
     st\<lparr>trace := trace st @
            [\<lparr>call = c, target = elem st, bound = timeout_of (default_timeout st) c,
              took = snd rd, result = fst rd\<rparr>],
        clock := clock st + snd rd\<rparr>"

text \<open>The call is logged with its outcome; it changes the state only when it returned.\<close>

definition conclude :: "call \<Rightarrow> exn option \<times> nat \<Rightarrow> state \<Rightarrow> exn option \<times> state" where
  "conclude c rd st =
     (fst rd, if fst rd = None then effect c (record_event c rd st) else record_event c rd st)"

definition perform :: "string list \<Rightarrow> env \<Rightarrow> call \<Rightarrow> state \<Rightarrow> exn option \<times> state" where
  "perform scope env c st =
     conclude c
       (attempt scope env (length (trace st)) (timeout_of (default_timeout st) c) c) st"

text \<open>
  Sequencing: the next statement runs only when the one before raised nothing. An
  \<open>except cls\<close> clause catches the instances of \<open>cls\<close> and lets every other exception pass.
\<close>

definition and_then ::
  "exn option \<times> state \<Rightarrow> (state \<Rightarrow> exn option \<times> state) \<Rightarrow> exn option \<times> state" where
  "and_then m f = (case m of (None, st) \<Rightarrow> f st | (Some e, st) \<Rightarrow> (Some e, st))"

definition except :: "exn_class \<Rightarrow> handler \<Rightarrow> exn option \<times> state \<Rightarrow> exn option \<times> state" where
  "except cls h m =
     (case m of
        (None, st) \<Rightarrow> (None, st)
      | (Some e, st) \<Rightarrow>
          (if isinstance e cls
           then (case h of Pass \<Rightarrow> (None, st) | Raise e' \<Rightarrow> (Some e', st))
           else (Some e, st)))"

fun exec_guarded :: "string list \<Rightarrow> env \<Rightarrow> guarded \<Rightarrow> state \<Rightarrow> exn option \<times> state" where
  "exec_guarded scope env (Exec c) st = perform scope env c st"
| "exec_guarded scope env (TryExcept c cls h) st = except cls h (perform scope env c st)"
| "exec_guarded scope env (IfSet r c) st =
     (if holds st r then perform scope env c st else (None, st))"

text \<open>\<open>for frame in page.frames: g\<close>, one round for each frame.\<close>

fun for_frames :: "string list \<Rightarrow> env \<Rightarrow> nat \<Rightarrow> guarded \<Rightarrow> state \<Rightarrow> exn option \<times> state" where
  "for_frames scope env 0 g st = (None, st)"
| "for_frames scope env (Suc k) g st =
     and_then (exec_guarded scope env g st) (for_frames scope env k g)"

fun exec_stmt :: "string list \<Rightarrow> env \<Rightarrow> stmt \<Rightarrow> state \<Rightarrow> exn option \<times> state" where
  "exec_stmt scope env (Single g) st = exec_guarded scope env g st"
| "exec_stmt scope env (ForEachFrame g) st = for_frames scope env (frames env) g st"

fun exec_stmts :: "string list \<Rightarrow> env \<Rightarrow> stmt list \<Rightarrow> state \<Rightarrow> exn option \<times> state" where
  "exec_stmts scope env [] st = (None, st)"
| "exec_stmts scope env (s # ss) st =
     and_then (exec_stmt scope env s st) (exec_stmts scope env ss)"

subsection \<open>\<open>run_test\<close>\<close>

text \<open>The \<open>finally\<close> block, lines 96-102 of TC001 and the same in every file.\<close>

definition teardown :: "stmt list" where
  "teardown =
     [Single (IfSet Context CloseContext),
      Single (IfSet Browser CloseBrowser),
      Single (IfSet Driver StopPlaywright)]"

definition try_block :: "string list \<Rightarrow> env \<Rightarrow> stmt list \<Rightarrow> exn option \<times> state" where
  "try_block scope env body = exec_stmts scope env body initial"

text \<open>
  \<open>try: body finally: teardown\<close>: the \<open>finally\<close> block runs on every exit of the body; an
  exception it raises replaces the body's, otherwise the body's outcome stands.
\<close>

definition finally_block ::
  "string list \<Rightarrow> env \<Rightarrow> exn option \<times> state \<Rightarrow> exn option \<times> state" where
  "finally_block scope env m =
     (case exec_stmts scope env teardown (snd m) of
        (Some e, st') \<Rightarrow> (Some e, st')
      | (None, st') \<Rightarrow> (fst m, st'))"

definition run_test :: "string list \<Rightarrow> env \<Rightarrow> stmt list \<Rightarrow> exn option \<times> state" where
  "run_test scope env body = finally_block scope env (try_block scope env body)"

subsection \<open>The module and its names\<close>

text \<open>
  The module level of each file, lines 1-4: \<open>import asyncio\<close>,
  \<open>from playwright import async_api\<close>, \<open>async def run_test()\<close>. Nothing else is imported or
  defined. Inside \<open>run_test\<close> a name is looked up among the function's local variables, then
  these module names, then Python's built-in names.
\<close>

datatype toplevel = Import string | FromImport string string | AsyncDef string

fun binds :: "toplevel \<Rightarrow> string" where
  "binds (Import m) = m"
| "binds (FromImport m n) = n"
| "binds (AsyncDef f) = f"

definition module_header :: "toplevel list" where
  "module_header =
     [Import ''asyncio'', FromImport ''playwright'' ''async_api'', AsyncDef ''run_test'']"

definition local_names :: "string list" where
  "local_names = [''pw'', ''browser'', ''context'', ''page'', ''frame'', ''elem'']"

definition python_builtins :: "string list" where
  "python_builtins =
     [''ArithmeticError'', ''AssertionError'', ''AttributeError'', ''BaseException'',
      ''BlockingIOError'', ''BrokenPipeError'', ''BufferError'', ''BytesWarning'',
      ''ChildProcessError'', ''ConnectionAbortedError'', ''ConnectionError'',
      ''ConnectionRefusedError'', ''ConnectionResetError'', ''DeprecationWarning'',
      ''EOFError'', ''Ellipsis'', ''EncodingWarning'', ''EnvironmentError'',
      ''Exception'', ''False'', ''FileExistsError'', ''FileNotFoundError'',
      ''FloatingPointError'', ''FutureWarning'', ''GeneratorExit'', ''IOError'',
      ''ImportError'', ''ImportWarning'', ''IndentationError'', ''IndexError'',
      ''InterruptedError'', ''IsADirectoryError'', ''KeyError'', ''KeyboardInterrupt'',
      ''LookupError'', ''MemoryError'', ''ModuleNotFoundError'', ''NameError'',
      ''None'', ''NotADirectoryError'', ''NotImplemented'', ''NotImplementedError'',
      ''OSError'', ''OverflowError'', ''PendingDeprecationWarning'',
      ''PermissionError'', ''ProcessLookupError'', ''RecursionError'',
      ''ReferenceError'', ''ResourceWarning'', ''RuntimeError'', ''RuntimeWarning'',
      ''StopAsyncIteration'', ''StopIteration'', ''SyntaxError'', ''SyntaxWarning'',
      ''SystemError'', ''SystemExit'', ''TabError'', ''TimeoutError'', ''True'',
      ''TypeError'', ''UnboundLocalError'', ''UnicodeDecodeError'',
      ''UnicodeEncodeError'', ''UnicodeError'', ''UnicodeTranslateError'',
      ''UnicodeWarning'', ''UserWarning'', ''ValueError'', ''Warning'',
      ''ZeroDivisionError'', ''__build_class__'', ''__debug__'', ''__doc__'',
      ''__import__'', ''__loader__'', ''__name__'', ''__package__'', ''__spec__'',
      ''abs'', ''aiter'', ''all'', ''anext'', ''any'', ''ascii'', ''bin'', ''bool'',
      ''breakpoint'', ''bytearray'', ''bytes'', ''callable'', ''chr'', ''classmethod'',
      ''compile'', ''complex'', ''copyright'', ''credits'', ''delattr'', ''dict'',
      ''dir'', ''divmod'', ''enumerate'', ''eval'', ''exec'', ''exit'', ''filter'',
      ''float'', ''format'', ''frozenset'', ''getattr'', ''globals'', ''hasattr'',
      ''hash'', ''help'', ''hex'', ''id'', ''input'', ''int'', ''isinstance'',
      ''issubclass'', ''iter'', ''len'', ''license'', ''list'', ''locals'', ''map'',
      ''max'', ''memoryview'', ''min'', ''next'', ''object'', ''oct'', ''open'',
      ''ord'', ''pow'', ''print'', ''property'', ''quit'', ''range'', ''repr'',
      ''reversed'', ''round'', ''set'', ''setattr'', ''slice'', ''sorted'',
      ''staticmethod'', ''str'', ''sum'', ''super'', ''tuple'', ''type'', ''vars'',
      ''zip'']"

definition module_scope :: "string list" where
  "module_scope = local_names @ map binds module_header @ python_builtins"

subsection \<open>The four scenarios\<close>

definition root_url :: string where
  "root_url = ''http://localhost:3000''"

definition root_slash_url :: string where
  "root_slash_url = ''http://localhost:3000/''"

definition login_url :: string where
  "login_url = ''http://localhost:3000/login''"

definition atividades_url :: string where
  "atividades_url = ''http://localhost:3000/iniciativas/atividades''"

definition email_input :: string where
  "email_input = ''xpath=html/body/div/div/div/div[2]/form/div[1]/div/input''"

definition password_input :: string where
  "password_input = ''xpath=html/body/div/div/div/div[2]/form/div[2]/div/input''"

definition submit_button :: string where
  "submit_button = ''xpath=html/body/div/div/div/div[2]/form/button''"

definition email_input_1 :: string where
  "email_input_1 = ''xpath=html/body/div[1]/div/div/div[2]/form/div[1]/div/input''"

definition password_input_1 :: string where
  "password_input_1 = ''xpath=html/body/div[1]/div/div/div[2]/form/div[2]/div/input''"

definition submit_button_1 :: string where
  "submit_button_1 = ''xpath=html/body/div[1]/div/div/div[2]/form/button''"

definition entrar_button_1 :: string where
  "entrar_button_1 = ''xpath=html/body/div[1]/div/div/div[2]/div[2]/button[1]''"

definition signup_button :: string where
  "signup_button = ''xpath=html/body/div/div/div/div[3]/p/button''"

definition spinner_svg :: string where
  "spinner_svg = ''xpath=html/body/div/div/svg''"

definition email_text :: string where
  "email_text = ''example@gmail.com''"

definition password_text :: string where
  "password_text = ''password123''"

definition chromium_args :: "string list" where
  "chromium_args =
     [''--window-size=1280,720'', ''--disable-dev-shm-usage'', ''--ipc=host'',
      ''--single-process'']"

text \<open>Lines 11-45, the same in the four files.\<close>

definition session_setup :: "stmt list" where
  "session_setup =
     [Single (Exec StartPlaywright),
      Single (Exec (LaunchChromium True chromium_args)),
      Single (Exec NewContext),
      Single (Exec (SetDefaultTimeout 5000)),
      Single (Exec NewPage),
      Single (Exec (Goto root_url ''commit'' 10000)),
      Single (TryExcept (WaitForLoadState ''domcontentloaded'' 3000) PlaywrightErrorClass Pass),
      ForEachFrame
        (TryExcept (FrameWaitForLoadState ''domcontentloaded'' 3000) PlaywrightErrorClass Pass)]"

text \<open>
  The block the generator writes for every input and click:
  \<^verbatim>\<open>
  frame = context.pages[-1]
  elem = frame.locator(sel).nth(0)
  await page.wait_for_timeout(3000); await elem.fill(txt)
  \<close>
  and the same with \<open>await elem.click(timeout=5000)\<close>.
\<close>

definition fill_step :: "string \<Rightarrow> string \<Rightarrow> stmt list" where
  "fill_step sel txt =
     [Single (Exec LastPage), Single (Exec (Locator sel)),
      Single (Exec (WaitForTimeout 3000)), Single (Exec (Fill txt))]"

definition click_step :: "string \<Rightarrow> stmt list" where
  "click_step sel =
     [Single (Exec LastPage), Single (Exec (Locator sel)),
      Single (Exec (WaitForTimeout 3000)), Single (Exec (Click 5000))]"

text \<open>
  The terminal assertion of TC001, TC003 and TC008:
  \<^verbatim>\<open>
  frame = context.pages[-1]
  try:
      await expect(frame.locator(sel).first).to_be_visible(timeout=3000)
  except AssertionError:
      raise AssertionError(msg)
  \<close>
  Strings are the bytes of the source file (UTF-8).
\<close>

definition expect_step :: "string \<Rightarrow> string \<Rightarrow> stmt" where
  "expect_step sel msg =
     Single (TryExcept (ExpectVisible ''expect'' sel 3000) AssertionErrorClass
               (Raise (AssertionError msg)))"

text \<open>TC001, lines 48-86.\<close>

definition TC001_actions :: "stmt list" where
  "TC001_actions = concat
     [[Single (Exec (Goto root_url ''commit'' 10000))],
      [Single (Exec (Goto login_url ''commit'' 10000))],
      fill_step email_input email_text,
      fill_step password_input password_text,
      click_step submit_button,
      click_step signup_button,
      [Single (Exec (Goto login_url ''commit'' 10000))],
      [Single (Exec (Goto login_url ''commit'' 10000))],
      [Single (Exec (Goto root_url ''commit'' 10000))],
      [Single (Exec (Goto atividades_url ''commit'' 10000))]]"

definition TC001_text :: string where
  "TC001_text = ''Iniciativa salva com sucesso.''"

definition TC001_message :: string where
  "TC001_message =
     ''Test case failed: N'' @ [CHR 0xC3, CHR 0xA3] @ ''o foi poss'' @
     [CHR 0xC3, CHR 0xAD] @
     ''vel verificar que a nova iniciativa foi cadastrada com sucesso. O teste esperava ver a mensagem de confirma'' @
     [CHR 0xC3, CHR 0xA7, CHR 0xC3, CHR 0xA3] @ ''o '' @ [CHR 0x27] @
     ''Iniciativa salva com sucesso.'' @ [CHR 0x27] @ '' e que '' @ [CHR 0x27] @
     ''Iniciativa E2E - Cadastro'' @ [CHR 0x27] @ '' aparecesse na lista, mas isso n'' @
     [CHR 0xC3, CHR 0xA3] @ ''o ocorreu.''"

definition TC001 :: "stmt list" where
  "TC001 = session_setup @ TC001_actions @
     [Single (Exec LastPage), expect_step (''text='' @ TC001_text) TC001_message,
      Single (Exec (Sleep 5))]"

text \<open>TC003, lines 48-332, and its assertion, lines 335-342 without the two fence lines.\<close>

definition TC003_actions :: "stmt list" where
  "TC003_actions = concat
     [[Single (Exec (Goto root_url ''commit'' 10000))],
      fill_step email_input email_text,
      fill_step password_input password_text,
      click_step submit_button,
      fill_step email_input_1 email_text,
      fill_step password_input_1 password_text,
      fill_step email_input email_text,
      fill_step password_input password_text,
      click_step submit_button,
      click_step entrar_button_1,
      fill_step email_input email_text,
      fill_step password_input password_text,
      click_step submit_button,
      [Single (Exec (Goto root_slash_url ''commit'' 10000))],
      fill_step email_input email_text,
      fill_step password_input password_text,
      click_step submit_button,
      fill_step email_input_1 email_text,
      fill_step password_input_1 password_text,
      click_step entrar_button_1,
      fill_step email_input_1 email_text,
      fill_step password_input_1 password_text,
      click_step submit_button_1,
      fill_step email_input email_text,
      fill_step password_input password_text,
      click_step submit_button,
      fill_step email_input_1 email_text,
      fill_step password_input_1 password_text,
      fill_step email_input email_text,
      fill_step password_input password_text,
      click_step submit_button,
      fill_step email_input_1 email_text,
      fill_step password_input_1 password_text,
      click_step entrar_button_1,
      fill_step email_input_1 email_text,
      fill_step password_input_1 password_text,
      click_step submit_button_1,
      fill_step email_input email_text,
      fill_step password_input password_text,
      click_step submit_button,
      fill_step email_input_1 email_text,
      fill_step password_input_1 password_text,
      click_step entrar_button_1,
      [Single (Exec (Goto atividades_url ''commit'' 10000))],
      fill_step email_input email_text,
      fill_step password_input password_text,
      click_step submit_button,
      fill_step email_input_1 email_text,
      fill_step password_input_1 password_text,
      click_step entrar_button_1,
      click_step submit_button_1,
      [Single (Exec (Goto atividades_url ''commit'' 10000))],
      fill_step email_input email_text,
      fill_step password_input password_text,
      click_step submit_button]"

definition TC003_text :: string where
  "TC003_text =
     ''in'' @ [CHR 0xC3, CHR 0xAD] @ ''cio n'' @ [CHR 0xC3, CHR 0xA3] @
     ''o pode ser posterior ao fim''"

definition TC003_message :: string where
  "TC003_message =
     ''Test case failed: o teste verificava que o formul'' @ [CHR 0xC3, CHR 0xA1] @
     ''rio impediria salvar quando a Data in'' @ [CHR 0xC3, CHR 0xAD] @
     ''cio (20/06/2026) '' @ [CHR 0xC3, CHR 0xA9] @ '' posterior '' @
     [CHR 0xC3, CHR 0xA0] @ '' Data final (10/06/2026) e exibiria a mensagem de valida'' @
     [CHR 0xC3, CHR 0xA7, CHR 0xC3, CHR 0xA3] @ ''o '' @ [CHR 0x27] @ ''in'' @
     [CHR 0xC3, CHR 0xAD] @ ''cio n'' @ [CHR 0xC3, CHR 0xA3] @
     ''o pode ser posterior ao fim'' @ [CHR 0x27] @ '', mas essa mensagem n'' @
     [CHR 0xC3, CHR 0xA3] @ ''o foi encontrada''"

definition TC003 :: "stmt list" where
  "TC003 = session_setup @ TC003_actions @
     [Single (Exec LastPage), expect_step (''text='' @ TC003_text) TC003_message,
      Single (Exec (Sleep 5))]"

text \<open>
  TC007, lines 48-118. Its assertion is
  \<^verbatim>\<open>
  frame = context.pages[-1]
  frame = context.pages[-1]
  elem = frame.locator("text=Evidencias").nth(0)
  await elem.wait_for(state="visible", timeout=5000)
  assert await elem.is_visible(), 'Expected "Evidencias" to be visible'
  \<close>
  (with the accented letter of the source in place of the plain one here).
\<close>

definition TC007_actions :: "stmt list" where
  "TC007_actions = concat
     [[Single (Exec (Goto root_url ''commit'' 10000))],
      [Single (Exec (Goto login_url ''commit'' 10000))],
      [Single (Exec (Goto login_url ''commit'' 10000))],
      click_step spinner_svg,
      fill_step email_input email_text,
      fill_step password_input password_text,
      click_step submit_button,
      fill_step email_input email_text,
      fill_step password_input password_text,
      click_step submit_button,
      fill_step email_input email_text,
      fill_step password_input password_text,
      click_step submit_button]"

definition TC007_text :: string where
  "TC007_text = ''Evid'' @ [CHR 0xC3, CHR 0xAA] @ ''ncias''"

definition TC007_message :: string where
  "TC007_message =
     ''Expected '' @ [CHR 0x22] @ ''Evid'' @ [CHR 0xC3, CHR 0xAA] @ ''ncias'' @
     [CHR 0x22] @ '' to be visible''"

definition TC007 :: "stmt list" where
  "TC007 = session_setup @ TC007_actions @
     [Single (Exec LastPage), Single (Exec LastPage),
      Single (Exec (Locator (''text='' @ TC007_text))),
      Single (Exec (WaitFor ''visible'' 5000)),
      Single (Exec (AssertIsVisible TC007_message)),
      Single (Exec (Sleep 5))]"

text \<open>TC008, lines 48-114.\<close>

definition TC008_actions :: "stmt list" where
  "TC008_actions = concat
     [[Single (Exec (Goto root_url ''commit'' 10000))],
      [Single (Exec (Goto login_url ''commit'' 10000))],
      fill_step email_input email_text,
      fill_step password_input password_text,
      click_step submit_button,
      fill_step email_input_1 email_text,
      fill_step password_input_1 password_text,
      click_step entrar_button_1,
      fill_step email_input email_text,
      fill_step password_input password_text,
      click_step submit_button,
      click_step entrar_button_1]"

definition TC008_text :: string where
  "TC008_text = ''Evid'' @ [CHR 0xC3, CHR 0xAA] @ ''ncias salvas com sucesso''"

definition TC008_message :: string where
  "TC008_message =
     ''Test case failed: ao clicar em '' @ [CHR 0x27] @ ''Salvar Evid'' @
     [CHR 0xC3, CHR 0xAA] @ ''ncias'' @ [CHR 0x27] @ '' esperava-se que as altera'' @
     [CHR 0xC3, CHR 0xA7, CHR 0xC3, CHR 0xB5] @
     ''es fossem persistidas e o toast de sucesso '' @ [CHR 0x27] @ ''Evid'' @
     [CHR 0xC3, CHR 0xAA] @ ''ncias salvas com sucesso'' @ [CHR 0x27] @
     '' fosse exibido, mas o toast n'' @ [CHR 0xC3, CHR 0xA3] @ ''o apareceu.''"

definition TC008 :: "stmt list" where
  "TC008 = session_setup @ TC008_actions @
     [Single (Exec LastPage), expect_step (''text='' @ TC008_text) TC008_message,
      Single (Exec (Sleep 5))]"

definition scenarios :: "stmt list list" where
  "scenarios = [TC001, TC003, TC007, TC008]"

subsection \<open>Source files and the command line\<close>

text \<open>
  A file is its statements together with the lines that are not statements. Python
  accepts such a line when it is blank or a comment; any other is a syntax error, found
  when the file is compiled, before the first statement runs. Of the lines that are not
  statements, comments and blank lines are left out here, but for line 334 of TC003.
\<close>

datatype src_line = Code stmt | Verbatim string

definition blank_or_comment :: "string \<Rightarrow> bool" where
  "blank_or_comment s =
     (case dropWhile (\<lambda>c. c = CHR '' '') s of [] \<Rightarrow> True | c # cs \<Rightarrow> c = CHR ''#'')"

fun parse :: "src_line list \<Rightarrow> exn + stmt list" where
  "parse [] = Inr []"
| "parse (Code s # ls) = (case parse ls of Inl e \<Rightarrow> Inl e | Inr ss \<Rightarrow> Inr (s # ss))"
| "parse (Verbatim t # ls) = (if blank_or_comment t then parse ls else Inl SyntaxError)"

definition TC001_file :: "src_line list" where
  "TC001_file = map Code TC001"

definition TC007_file :: "src_line list" where
  "TC007_file = map Code TC007"

definition TC008_file :: "src_line list" where
  "TC008_file = map Code TC008"

text \<open>
  TC003, lines 334-342:
  \<^verbatim>\<open>
          # --> Assertions to verify final state
          frame = context.pages[-1]
          ```
          try:
              await expect(...).to_be_visible(timeout=3000)
          except AssertionError:
              raise AssertionError("Test case failed: ...")
          ```
          await asyncio.sleep(5)
  \<close>
\<close>

definition fence :: string where
  "fence = ''        '' @ [CHR 0x60, CHR 0x60, CHR 0x60]"

definition TC003_file :: "src_line list" where
  "TC003_file = map Code (session_setup @ TC003_actions) @
     [Verbatim ''        # --> Assertions to verify final state'',
      Code (Single (Exec LastPage)),
      Verbatim fence,
      Code (expect_step (''text='' @ TC003_text) TC003_message),
      Verbatim fence,
      Code (Single (Exec (Sleep 5)))]"

text \<open>
  \<open>python TCxxx.py\<close>: the file is compiled, then \<open>asyncio.run(run_test())\<close> runs. The
  interpreter exits with status 0 when the module ends normally, and with status 1, after
  printing the traceback, when an exception (a \<open>SyntaxError\<close> too) is not caught.
\<close>

definition invoke :: "src_line list \<Rightarrow> env \<Rightarrow> exn option \<times> state" where
  "invoke src env =
     (case parse src of
        Inl e \<Rightarrow> (Some e, initial)
      | Inr body \<Rightarrow> run_test module_scope env body)"

definition exit_status :: "exn option \<Rightarrow> nat" where
  "exit_status r = (case r of None \<Rightarrow> 0 | Some e \<Rightarrow> 1)"

definition main :: "src_line list \<Rightarrow> env \<Rightarrow> nat" where
  "main src env = exit_status (fst (invoke src env))"


subsection \<open>The script as a listing of calls\<close>

text \<open>
  A script has no branch and no jump, so the calls it can make, with the locator and the
  timeout in force at each, can be read off the text: \<open>walk n body p\<close> lists them for a page
  of \<open>n\<close> frames, from the locator and session default \<open>p\<close>. Only \<open>elem = frame.locator(...)\<close> and
  \<open>context.set_default_timeout(...)\<close> change the two, and neither can fail.
\<close>

type_synonym sig = "guarded \<times> string option \<times> nat option"

fun call_of :: "guarded \<Rightarrow> call" where
  "call_of (Exec c) = c"
| "call_of (TryExcept c cls h) = c"
| "call_of (IfSet r c) = c"

fun remember :: "call \<Rightarrow> string option \<times> nat option \<Rightarrow> string option \<times> nat option" where
  "remember (SetDefaultTimeout t) p = (fst p, Some t)"
| "remember (Locator sel) p = (Some sel, snd p)"
| "remember c p = p"

definition planned :: "guarded \<Rightarrow> string option \<times> nat option \<Rightarrow> sig" where
  "planned g p = (g, fst p, timeout_of (snd p) (call_of g))"

fun walk_frames ::
  "nat \<Rightarrow> guarded \<Rightarrow> string option \<times> nat option \<Rightarrow> sig list \<times> (string option \<times> nat option)" where
  "walk_frames 0 g p = ([], p)"
| "walk_frames (Suc k) g p =
     (case walk_frames k g (remember (call_of g) p) of (xs, p') \<Rightarrow> (planned g p # xs, p'))"

fun walk ::
  "nat \<Rightarrow> stmt list \<Rightarrow> string option \<times> nat option \<Rightarrow> sig list \<times> (string option \<times> nat option)" where
  "walk n [] p = ([], p)"
| "walk n (Single g # ss) p =
     (case walk n ss (remember (call_of g) p) of (xs, p') \<Rightarrow> (planned g p # xs, p'))"
| "walk n (ForEachFrame g # ss) p =
     (case walk_frames n g p of
        (xs, p') \<Rightarrow> (case walk n ss p' of (ys, p'') \<Rightarrow> (xs @ ys, p'')))"

definition listing :: "nat \<Rightarrow> stmt list \<Rightarrow> sig list" where
  "listing n body = fst (walk n body (None, None))"

text \<open>Statements without \<open>if v:\<close>, as all statements of a \<open>try\<close> body are.\<close>

fun plain_guarded :: "guarded \<Rightarrow> bool" where
  "plain_guarded (IfSet r c) = False"
| "plain_guarded g = True"

fun plain :: "stmt \<Rightarrow> bool" where
  "plain (Single g) = plain_guarded g"
| "plain (ForEachFrame g) = plain_guarded g"

text \<open>
  What leaves a statement when its call raises \<open>e\<close>: nothing when a handler catches it and
  passes, the handler's exception when the handler raises, \<open>e\<close> itself otherwise.
\<close>

fun surfaces :: "guarded \<Rightarrow> exn \<Rightarrow> exn option" where
  "surfaces (Exec c) e = Some e"
| "surfaces (TryExcept c cls h) e =
     (if isinstance e cls then (case h of Pass \<Rightarrow> None | Raise e' \<Rightarrow> Some e') else Some e)"
| "surfaces (IfSet r c) e = Some e"

text \<open>
  \<open>conforms r evs ps\<close>: the events \<open>evs\<close> are the run of the listing \<open>ps\<close> that ends with outcome
  \<open>r\<close>. Each event is the call of the next entry, with the locator and timeout listed; the
  run goes on after a call that returned or whose exception was caught and passed; it
  stops at the first exception that surfaces, and that exception is the outcome.
\<close>

fun conforms :: "exn option \<Rightarrow> event list \<Rightarrow> sig list \<Rightarrow> bool" where
  "conforms r [] ps = (r = None \<and> ps = [])"
| "conforms r (ev # evs) [] = False"
| "conforms r (ev # evs) ((g, tg, b) # ps) =
     (call ev = call_of g \<and> target ev = tg \<and> bound ev = b \<and>
      (case result ev of
         None \<Rightarrow> conforms r evs ps
       | Some e \<Rightarrow>
           (case surfaces g e of
              None \<Rightarrow> conforms r evs ps
            | Some e' \<Rightarrow> evs = [] \<and> r = Some e')))"

text \<open>The locator and the session default a state holds.\<close>

definition in_force :: "state \<Rightarrow> string option \<times> nat option" where
  "in_force st = (elem st, default_timeout st)"

text \<open>The calls a script lists, in order.\<close>

definition script_calls :: "nat \<Rightarrow> stmt list \<Rightarrow> call list" where
  "script_calls n body = map (\<lambda>x. call_of (fst x)) (listing n body)"

text \<open>The listing of the session set-up, on a page of \<open>n\<close> frames.\<close>

definition setup_entries :: "nat \<Rightarrow> sig list" where
  "setup_entries n =
     [(Exec StartPlaywright, None, None),
      (Exec (LaunchChromium True chromium_args), None, None),
      (Exec NewContext, None, None),
      (Exec (SetDefaultTimeout 5000), None, None),
      (Exec NewPage, None, None),
      (Exec (Goto root_url ''commit'' 10000), None, Some 10000),
      (TryExcept (WaitForLoadState ''domcontentloaded'' 3000) PlaywrightErrorClass Pass,
       None, Some 3000)] @
     replicate n
       (TryExcept (FrameWaitForLoadState ''domcontentloaded'' 3000) PlaywrightErrorClass Pass,
        None, Some 3000)"

text \<open>How often a script lists the filling in of a text.\<close>

definition scripted_fills :: "string \<Rightarrow> nat \<Rightarrow> stmt list \<Rightarrow> nat" where
  "scripted_fills txt n body = length (filter (\<lambda>c. c = Fill txt) (script_calls n body))"

subsection \<open>Vocabulary of the properties\<close>

text \<open>
  A suspension point is a call the source awaits: every call but the three the source
  makes without \<open>await\<close>, which are \<open>context.set_default_timeout(...)\<close>, \<open>context.pages[-1]\<close> and
  \<open>frame.locator(...)\<close>.
\<close>

fun suspends :: "call \<Rightarrow> bool" where
  "suspends (SetDefaultTimeout t) = False"
| "suspends LastPage = False"
| "suspends (Locator sel) = False"
| "suspends c = True"

text \<open>
  The kinds of suspension point that have a timeout in force: navigation, load-state
  wait, element wait (\<open>fill\<close>, \<open>click\<close>, \<open>wait_for\<close>), explicit pause (\<open>wait_for_timeout\<close>,
  \<open>asyncio.sleep\<close>), terminal assertion (\<open>expect(...).to_be_visible\<close>). The other awaited calls
  are \<open>start\<close>, \<open>launch\<close>, \<open>new_context\<close>, \<open>new_page\<close>, \<open>is_visible\<close>, \<open>context.close\<close>, \<open>browser.close\<close> and
  \<open>pw.stop\<close>.
\<close>

fun timeout_kind :: "call \<Rightarrow> bool" where
  "timeout_kind (Goto url w t) = True"
| "timeout_kind (WaitForLoadState s t) = True"
| "timeout_kind (FrameWaitForLoadState s t) = True"
| "timeout_kind (WaitForTimeout n) = True"
| "timeout_kind (Sleep s) = True"
| "timeout_kind (Fill txt) = True"
| "timeout_kind (Click t) = True"
| "timeout_kind (WaitFor s t) = True"
| "timeout_kind (ExpectVisible f sel t) = True"
| "timeout_kind c = False"

fun interactive :: "call \<Rightarrow> bool" where
  "interactive (Fill txt) = True"
| "interactive (Click t) = True"
| "interactive c = False"

fun load_wait :: "call \<Rightarrow> bool" where
  "load_wait (WaitForLoadState s t) = True"
| "load_wait (FrameWaitForLoadState s t) = True"
| "load_wait c = False"

fun is_expect :: "call \<Rightarrow> bool" where
  "is_expect (ExpectVisible f sel t) = True"
| "is_expect c = False"

definition is_release :: "call \<Rightarrow> bool" where
  "is_release c = (releases c \<noteq> None)"

text \<open>The call took no longer than the timeout in force.\<close>

definition within :: "event \<Rightarrow> bool" where
  "within ev = (case bound ev of None \<Rightarrow> True | Some t \<Rightarrow> took ev \<le> t)"

text \<open>
  The time a run spends in calls that have a timeout in force, and the time it spends in
  the others.
\<close>

definition timed_time :: "event list \<Rightarrow> nat" where
  "timed_time tr = sum_list (map took (filter (\<lambda>ev. timeout_kind (call ev)) tr))"

definition untimed_time :: "event list \<Rightarrow> nat" where
  "untimed_time tr = sum_list (map took (filter (\<lambda>ev. \<not> timeout_kind (call ev)) tr))"

text \<open>
  An interactive step is the pause the generator writes before the operation, and the
  operation. \<open>within_budget\<close>: pause and operation together fit the operation's timeout.
\<close>

fun within_budget :: "event list \<Rightarrow> bool" where
  "within_budget (p # e # es) =
     ((case call p of
         WaitForTimeout n \<Rightarrow>
           (if interactive (call e)
            then (case bound e of None \<Rightarrow> False | Some t \<Rightarrow> took p + took e \<le> t)
            else True)
       | _ \<Rightarrow> True)
      \<and> within_budget (e # es))"
| "within_budget es = True"

text \<open>Every interactive call of a listing comes right after \<open>wait_for_timeout(3000)\<close>.\<close>

fun paused_from :: "call option \<Rightarrow> call list \<Rightarrow> bool" where
  "paused_from prev [] = True"
| "paused_from prev (c # cs) =
     ((interactive c \<longrightarrow> prev = Some (WaitForTimeout 3000)) \<and> paused_from (Some c) cs)"

fun is_click :: "call \<Rightarrow> bool" where
  "is_click (Click t) = True"
| "is_click c = False"

text \<open>How often a run fills in a text, and how often it clicks a control.\<close>

definition fills :: "string \<Rightarrow> event list \<Rightarrow> nat" where
  "fills txt tr = length (filter (\<lambda>ev. call ev = Fill txt \<and> result ev = None) tr)"

definition clicks :: "string \<Rightarrow> event list \<Rightarrow> nat" where
  "clicks sel tr =
     length (filter (\<lambda>ev. is_click (call ev) \<and> target ev = Some sel \<and> result ev = None) tr)"

subsection \<open>Resources\<close>

text \<open>A resource was acquired when the call that creates it returned.\<close>

definition acquired :: "event list \<Rightarrow> resource \<Rightarrow> bool" where
  "acquired tr r = list_ex (\<lambda>ev. acquires (call ev) = Some r \<and> result ev = None) tr"

definition closes :: "event list \<Rightarrow> call list" where
  "closes tr = filter is_release (map call tr)"

text \<open>The calls of a trace that belong to the \<open>try\<close> body.\<close>

definition body_calls :: "event list \<Rightarrow> call list" where
  "body_calls tr = filter (\<lambda>c. \<not> is_release c) (map call tr)"

text \<open>A statement of a \<open>try\<close> body: no \<open>if v:\<close>, and no call that closes a resource.\<close>

fun guard_of :: "stmt \<Rightarrow> guarded" where
  "guard_of (Single g) = g"
| "guard_of (ForEachFrame g) = g"

definition body_stmt :: "stmt \<Rightarrow> bool" where
  "body_stmt s = (plain s \<and> \<not> is_release (call_of (guard_of s)))"

text \<open>
  The variables \<open>pw\<close>, \<open>browser\<close>, \<open>context\<close> hold exactly the resources that are allocated, these
  are the ones acquired so far, and nothing has been closed.
\<close>

definition consistent :: "state \<Rightarrow> bool" where
  "consistent st =
     ((\<forall>res. holds st res = (res \<in> live st)) \<and>
      (\<forall>res. holds st res = acquired (trace st) res) \<and>
      closes (trace st) = [])"

text \<open>
  The closing calls owed to a trace: one for each resource acquired, in the order of the
  \<open>finally\<close> block.
\<close>

definition closes_owed :: "event list \<Rightarrow> call list" where
  "closes_owed tr =
     (if acquired tr Context then [CloseContext] else []) @
     (if acquired tr Browser then [CloseBrowser] else []) @
     (if acquired tr Driver then [StopPlaywright] else [])"


subsection \<open>Exceptions of calls and shapes of statements\<close>

text \<open>The exceptions a call can raise.\<close>

fun may_raise :: "string list \<Rightarrow> call \<Rightarrow> exn \<Rightarrow> bool" where
  "may_raise scope (ExpectVisible f sel t) e =
     (if f \<in> set scope
      then e \<in> {PlaywrightError, DriverFailure, AssertionError expect_message}
      else e = NameError f)"
| "may_raise scope (AssertIsVisible m) e = (e \<in> {PlaywrightError, DriverFailure, AssertionError m})"
| "may_raise scope (SetDefaultTimeout t) e = False"
| "may_raise scope (Locator sel) e = False"
| "may_raise scope LastPage e = (e = IndexError)"
| "may_raise scope (Sleep s) e = False"
| "may_raise scope c e = (e \<in> {PlaywrightError, PlaywrightTimeoutError, DriverFailure})"

text \<open>
  An event is explained when its exception is one its call can raise, and when it did not
  return from a call that cannot return.
\<close>

fun cannot_return :: "string list \<Rightarrow> call \<Rightarrow> bool" where
  "cannot_return scope (ExpectVisible f sel t) = (f \<notin> set scope)"
| "cannot_return scope c = False"

definition explained :: "string list \<Rightarrow> event \<Rightarrow> bool" where
  "explained scope ev =
     (case result ev of
        None \<Rightarrow> \<not> cannot_return scope (call ev)
      | Some e \<Rightarrow> may_raise scope (call ev) e)"

text \<open>
  What holds of every entry of the four listings: a call of a kind with a timeout has
  one, of at most 10 s, and a call of another kind has none; \<open>fill\<close> and \<open>click\<close> have 5 s; a
  navigation waits until \<open>commit\<close>, with the 10 s written at the call; a pause is bounded
  by its own duration.
\<close>

definition entry_ok :: "sig \<Rightarrow> bool" where
  "entry_ok x =
     (case x of (g, tg, b) \<Rightarrow>
        (timeout_kind (call_of g) \<longrightarrow> (case b of None \<Rightarrow> False | Some t \<Rightarrow> t \<le> 10000)) \<and>
        (\<not> timeout_kind (call_of g) \<longrightarrow> b = None) \<and>
        (interactive (call_of g) \<longrightarrow> b = Some 5000) \<and>
        (case call_of g of
           Goto url w t \<Rightarrow> w = ''commit'' \<and> t = 10000 \<and> b = Some t
         | WaitForTimeout n \<Rightarrow> b = Some n
         | _ \<Rightarrow> True))"

text \<open>
  The two kinds of statement in TC001, TC003 and TC008. \<open>harmless\<close>: a call other than an
  assertion, bare or under a handler that passes. \<open>expect_step_shape\<close>: the terminal
  assertion, \<open>expect\<close> applied under \<open>except AssertionError\<close>.
\<close>

fun is_assert :: "call \<Rightarrow> bool" where
  "is_assert (AssertIsVisible m) = True"
| "is_assert c = False"

fun harmless :: "guarded \<Rightarrow> bool" where
  "harmless (Exec c) = (\<not> is_expect c \<and> \<not> is_assert c)"
| "harmless (TryExcept c cls h) = (\<not> is_expect c \<and> \<not> is_assert c \<and> h = Pass)"
| "harmless (IfSet r c) = False"

fun expect_step_shape :: "guarded \<Rightarrow> bool" where
  "expect_step_shape (TryExcept (ExpectVisible f sel t) cls h) =
     (f = ''expect'' \<and> cls = AssertionErrorClass)"
| "expect_step_shape g = False"

definition expect_scenarios :: "stmt list list" where
  "expect_scenarios = [TC001, TC003, TC008]"

subsection \<open>Environments used as examples\<close>

text \<open>Every call returns after 10 ms; the page has one frame.\<close>

definition env_prompt :: env where
  "env_prompt = \<lparr>answer = (\<lambda>n. Returns 10), visible = (\<lambda>n. True), frames = 1\<rparr>"

text \<open>Every call returns after 4 s.\<close>

definition env_slow :: env where
  "env_slow = \<lparr>answer = (\<lambda>n. Returns 4000), visible = (\<lambda>n. True), frames = 1\<rparr>"

text \<open>The browser cannot be launched: the second call, \<open>pw.chromium.launch\<close>, fails.\<close>

definition env_no_browser :: env where
  "env_no_browser =
     \<lparr>answer = (\<lambda>n. if n = 1 then Fails Crash 10 else Returns 10),
      visible = (\<lambda>n. True), frames = 1\<rparr>"


text \<open>The expected text never shows: the assertion's call gets no answer for 60 s.\<close>

definition env_never_visible :: env where
  "env_never_visible =
     \<lparr>answer = (\<lambda>n. if n = 31 then Returns 60000 else Returns 10),
      visible = (\<lambda>n. False), frames = 1\<rparr>"

text \<open>\<open>context.new_page()\<close> (call 4) answers only after \<open>d\<close> ms.\<close>

definition env_waits :: "nat \<Rightarrow> env" where
  "env_waits d =
     \<lparr>answer = (\<lambda>n. if n = 4 then Returns d else Returns 10),
      visible = (\<lambda>n. True), frames = 1\<rparr>"

section \<open>Single calls\<close>

lemma settle_within: "settle b rp = (r, d) \<Longrightarrow> (case b of None \<Rightarrow> True | Some t \<Rightarrow> d \<le> t)"
  by (cases b; cases rp) (auto split: if_splits)

lemma pause_within: "pause n rp = (r, d) \<Longrightarrow> d \<le> n"
  by (cases rp) (auto split: if_splits)

lemma exn_of_cases: "exn_of f = PlaywrightError \<or> exn_of f = DriverFailure"
  by (cases f) auto

lemma settle_raises:
  "settle b rp = (Some e, d) \<Longrightarrow> e \<in> {PlaywrightError, PlaywrightTimeoutError, DriverFailure}"
  using exn_of_cases by (cases b; cases rp) (auto split: if_splits)

lemma settle_None_raises:
  "settle None rp = (Some e, d) \<Longrightarrow> e \<in> {PlaywrightError, DriverFailure}"
  using exn_of_cases by (cases rp) auto

lemma pause_raises: "pause n rp = (Some e, d) \<Longrightarrow> e \<in> {PlaywrightError, DriverFailure}"
  using exn_of_cases by (cases rp) (auto split: if_splits)

lemma attempt_within:
  "attempt scope env n (timeout_of dflt c) c = (r, d) \<Longrightarrow>
   (case timeout_of dflt c of None \<Rightarrow> True | Some t \<Rightarrow> d \<le> t)"
  by (cases c)
     (auto dest: settle_within pause_within split: if_splits prod.splits option.splits exn.splits
           reply.splits)

lemma attempt_may_raise:
  "attempt scope env n (timeout_of dflt c) c = (Some e, d) \<Longrightarrow> may_raise scope c e"
  by (cases c)
     (auto dest: settle_raises settle_None_raises pause_raises
           split: if_splits prod.splits option.splits exn.splits reply.splits)

lemma attempt_remember:
  "attempt scope env n b c = (Some e, d) \<Longrightarrow> remember c p = p"
  by (cases c) auto

lemma effect_in_force: "in_force (effect c st) = remember c (in_force st)"
  by (cases c) (auto simp: effect_def in_force_def)

lemma in_force_record_event [simp]: "in_force (record_event c rd st) = in_force st"
  by (simp add: in_force_def record_event_def)

lemma trace_effect [simp]: "trace (effect c st) = trace st"
  by (cases c) (auto simp: effect_def)

lemma attempt_cannot_return:
  "cannot_return scope c \<Longrightarrow> fst (attempt scope env n b c) \<noteq> None"
  by (cases c) auto

lemma perform_event:
  assumes "perform scope env c st = (r, st')"
  shows "\<exists>ev. trace st' = trace st @ [ev] \<and> call ev = c \<and> target ev = elem st \<and>
              bound ev = timeout_of (default_timeout st) c \<and>
              result ev = r \<and> within ev \<and> explained scope ev \<and>
              in_force st' = remember c (in_force st)"
proof -
  obtain r0 d where a: "attempt scope env (length (trace st)) (timeout_of (default_timeout st) c) c = (r0, d)"
    by fastforce
  let ?ev = "\<lparr>call = c, target = elem st, bound = timeout_of (default_timeout st) c,
              took = d, result = r0\<rparr>"
  have tr: "trace (record_event c (r0, d) st) = trace st @ [?ev]"
    by (simp add: record_event_def)
  have r: "r = r0" using assms a by (simp add: perform_def conclude_def)
  have t: "trace st' = trace st @ [?ev]"
    using assms a tr by (auto simp: perform_def conclude_def split: if_splits)
  have w: "within ?ev" using attempt_within [OF a] by (simp add: within_def split: option.splits)
  have f: "in_force st' = remember c (in_force st)"
  proof (cases r0)
    case None
    then show ?thesis using assms a by (auto simp: perform_def conclude_def effect_in_force)
  next
    case (Some e)
    then show ?thesis using assms a attempt_remember [of scope env _ _ c e d "in_force st"]
      by (auto simp: perform_def conclude_def)
  qed
  have m: "explained scope ?ev"
    using attempt_may_raise [of scope env _ "default_timeout st" c] a
      attempt_cannot_return [of scope c env "length (trace st)" "timeout_of (default_timeout st) c"]
    by (auto simp: explained_def split: option.splits)
  show ?thesis using t r w f m by (intro exI [of _ ?ev]) simp
qed

lemma guarded_event:
  assumes "exec_guarded scope env g st = (r, st')" "plain_guarded g"
  shows "\<exists>ev. trace st' = trace st @ [ev] \<and> call ev = call_of g \<and> target ev = elem st \<and>
              bound ev = timeout_of (default_timeout st) (call_of g) \<and>
              r = (case result ev of None \<Rightarrow> None | Some e \<Rightarrow> surfaces g e) \<and>
              within ev \<and> explained scope ev \<and>
              in_force st' = remember (call_of g) (in_force st)"
proof (cases g)
  case (Exec c)
  then show ?thesis using assms perform_event [of scope env c st r st']
    by (auto split: option.splits)
next
  case (TryExcept c cls h)
  obtain r0 st0 where p: "perform scope env c st = (r0, st0)" by fastforce
  from perform_event [OF p] obtain ev where ev:
    "trace st0 = trace st @ [ev]" "call ev = c" "target ev = elem st"
    "bound ev = timeout_of (default_timeout st) c" "result ev = r0" "within ev"
    "explained scope ev" "in_force st0 = remember c (in_force st)" by blast
  have "st' = st0" using assms p TryExcept
    by (auto simp: except_def split: option.splits if_splits handler.splits)
  moreover have "r = (case r0 of None \<Rightarrow> None | Some e \<Rightarrow> surfaces g e)"
    using assms p TryExcept
    by (auto simp: except_def split: option.splits if_splits handler.splits)
  ultimately show ?thesis using ev TryExcept by (intro exI [of _ ev]) simp
next
  case (IfSet x31 x32)
  then show ?thesis using assms by simp
qed


section \<open>Runs conform to the listing\<close>

lemma conforms_append:
  "conforms None evs1 ps1 \<Longrightarrow> conforms r evs2 ps2 \<Longrightarrow> conforms r (evs1 @ evs2) (ps1 @ ps2)"
  by (induction "None :: exn option" evs1 ps1 rule: conforms.induct)
     (auto split: option.splits)

lemma conforms_raised:
  "conforms (Some e) evs ps1 \<Longrightarrow> conforms (Some e) evs (ps1 @ ps2)"
  by (induction "Some e" evs ps1 rule: conforms.induct) (auto split: option.splits)

lemma conforms_step:
  assumes "call ev = call_of g" "target ev = fst p" "bound ev = timeout_of (snd p) (call_of g)"
    and "(case result ev of None \<Rightarrow> None | Some e \<Rightarrow> surfaces g e) = None"
    and "conforms r evs ps"
  shows "conforms r (ev # evs) (planned g p # ps)"
  using assms by (auto simp: planned_def split: option.splits)

lemma conforms_stop:
  assumes "call ev = call_of g" "target ev = fst p" "bound ev = timeout_of (snd p) (call_of g)"
    and "(case result ev of None \<Rightarrow> None | Some e \<Rightarrow> surfaces g e) = Some e'"
  shows "conforms (Some e') [ev] (planned g p # ps)"
  using assms by (auto simp: planned_def split: option.splits)

lemma frames_conforms:
  assumes "plain_guarded g"
  shows "for_frames scope env k g st = (r, st') \<Longrightarrow>
         \<exists>evs. trace st' = trace st @ evs \<and> list_all within evs \<and>
               list_all (explained scope) evs \<and>
               conforms r evs (fst (walk_frames k g (in_force st))) \<and>
               (r = None \<longrightarrow> in_force st' = snd (walk_frames k g (in_force st)))"
proof (induction k arbitrary: st)
  case 0
  then show ?case by simp
next
  case (Suc k)
  obtain r1 st1 where g: "exec_guarded scope env g st = (r1, st1)" by fastforce
  from guarded_event [OF g assms] obtain ev where ev:
    "trace st1 = trace st @ [ev]" "call ev = call_of g" "target ev = elem st"
    "bound ev = timeout_of (default_timeout st) (call_of g)"
    "r1 = (case result ev of None \<Rightarrow> None | Some e \<Rightarrow> surfaces g e)"
    "within ev" "explained scope ev" "in_force st1 = remember (call_of g) (in_force st)"
    by blast
  obtain xs p' where w: "walk_frames k g (remember (call_of g) (in_force st)) = (xs, p')"
    by (cases "walk_frames k g (remember (call_of g) (in_force st))") auto
  show ?case
  proof (cases r1)
    case None
    then have rest: "for_frames scope env k g st1 = (r, st')"
      using Suc.prems g by (simp add: and_then_def)
    from Suc.IH [OF rest] obtain evs where evs:
      "trace st' = trace st1 @ evs" "list_all within evs" "list_all (explained scope) evs"
      "conforms r evs (fst (walk_frames k g (in_force st1)))"
      "r = None \<longrightarrow> in_force st' = snd (walk_frames k g (in_force st1))" by blast
    have c: "conforms r (ev # evs) (planned g (in_force st) # xs)"
      using ev evs w None by (intro conforms_step) (auto simp: in_force_def)
    show ?thesis using ev evs w c by (intro exI [of _ "ev # evs"]) simp
  next
    case (Some e)
    then have st: "r = Some e" "st' = st1" using Suc.prems g by (auto simp: and_then_def)
    have c: "conforms (Some e) [ev] (planned g (in_force st) # xs)"
      using ev Some by (intro conforms_stop) (auto simp: in_force_def)
    show ?thesis using ev st w c by (intro exI [of _ "[ev]"]) simp
  qed
qed

lemma stmts_conforms:
  "list_all plain body \<Longrightarrow> exec_stmts scope env body st = (r, st') \<Longrightarrow>
   \<exists>evs. trace st' = trace st @ evs \<and> list_all within evs \<and>
         list_all (explained scope) evs \<and>
         conforms r evs (fst (walk (frames env) body (in_force st))) \<and>
         (r = None \<longrightarrow> in_force st' = snd (walk (frames env) body (in_force st)))"
proof (induction body arbitrary: st)
  case Nil
  then show ?case by simp
next
  case (Cons s ss)
  obtain r1 st1 where s: "exec_stmt scope env s st = (r1, st1)" by fastforce
  have pl: "list_all plain ss" "plain s" using Cons.prems by simp_all
  show ?case
  proof (cases s)
    case (Single g)
    then have g: "exec_guarded scope env g st = (r1, st1)" "plain_guarded g"
      using s pl by simp_all
    from guarded_event [OF g] obtain ev where ev:
      "trace st1 = trace st @ [ev]" "call ev = call_of g" "target ev = elem st"
      "bound ev = timeout_of (default_timeout st) (call_of g)"
      "r1 = (case result ev of None \<Rightarrow> None | Some e \<Rightarrow> surfaces g e)"
      "within ev" "explained scope ev" "in_force st1 = remember (call_of g) (in_force st)"
      by blast
    obtain xs p' where w: "walk (frames env) ss (remember (call_of g) (in_force st)) = (xs, p')"
      by (cases "walk (frames env) ss (remember (call_of g) (in_force st))") auto
    show ?thesis
    proof (cases r1)
      case None
      then have rest: "exec_stmts scope env ss st1 = (r, st')"
        using Cons.prems s by (simp add: and_then_def)
      from Cons.IH [OF pl(1) rest] obtain evs where evs:
        "trace st' = trace st1 @ evs" "list_all within evs" "list_all (explained scope) evs"
        "conforms r evs (fst (walk (frames env) ss (in_force st1)))"
        "r = None \<longrightarrow> in_force st' = snd (walk (frames env) ss (in_force st1))" by blast
      have c: "conforms r (ev # evs) (planned g (in_force st) # xs)"
        using ev evs w None by (intro conforms_step) (auto simp: in_force_def)
      show ?thesis using ev evs w c Single by (intro exI [of _ "ev # evs"]) simp
    next
      case (Some e)
      then have st: "r = Some e" "st' = st1" using Cons.prems s by (auto simp: and_then_def)
      have c: "conforms (Some e) [ev] (planned g (in_force st) # xs)"
        using ev Some by (intro conforms_stop) (auto simp: in_force_def)
      show ?thesis using ev st w c Single by (intro exI [of _ "[ev]"]) simp
    qed
  next
    case (ForEachFrame g)
    then have g: "for_frames scope env (frames env) g st = (r1, st1)" "plain_guarded g"
      using s pl by simp_all
    from frames_conforms [OF g(2) g(1)] obtain evs1 where evs1:
      "trace st1 = trace st @ evs1" "list_all within evs1" "list_all (explained scope) evs1"
      "conforms r1 evs1 (fst (walk_frames (frames env) g (in_force st)))"
      "r1 = None \<longrightarrow> in_force st1 = snd (walk_frames (frames env) g (in_force st))" by blast
    obtain xs p' where wf: "walk_frames (frames env) g (in_force st) = (xs, p')"
      by (cases "walk_frames (frames env) g (in_force st)") auto
    obtain ys p'' where w: "walk (frames env) ss p' = (ys, p'')"
      by (cases "walk (frames env) ss p'") auto
    show ?thesis
    proof (cases r1)
      case None
      then have rest: "exec_stmts scope env ss st1 = (r, st')"
        using Cons.prems s by (simp add: and_then_def)
      from Cons.IH [OF pl(1) rest] obtain evs where evs:
        "trace st' = trace st1 @ evs" "list_all within evs" "list_all (explained scope) evs"
        "conforms r evs (fst (walk (frames env) ss (in_force st1)))"
        "r = None \<longrightarrow> in_force st' = snd (walk (frames env) ss (in_force st1))" by blast
      have c: "conforms r (evs1 @ evs) (xs @ ys)"
        using evs1 evs wf w None by (intro conforms_append) auto
      show ?thesis using evs1 evs wf w c ForEachFrame None
        by (intro exI [of _ "evs1 @ evs"]) simp
    next
      case (Some e)
      then have st: "r = Some e" "st' = st1" using Cons.prems s by (auto simp: and_then_def)
      have c: "conforms (Some e) evs1 (xs @ ys)"
        using evs1 wf Some by (intro conforms_raised) auto
      show ?thesis using evs1 st wf w c ForEachFrame by (intro exI [of _ evs1]) simp
    qed
  qed
qed


section \<open>Resources\<close>

lemma acquired_snoc:
  "acquired (tr @ [ev]) res = (acquired tr res \<or> (acquires (call ev) = Some res \<and> result ev = None))"
  by (auto simp: acquired_def)

lemma closes_snoc: "closes (tr @ [ev]) = closes tr @ (if is_release (call ev) then [call ev] else [])"
  by (simp add: closes_def)

lemma acquires_not_release: "acquires c = Some res \<Longrightarrow> releases c = None"
  by (cases c) auto

lemma holds_assign: "holds (assign res0 st) res = (res = res0 \<or> holds st res)"
  by (cases res0; cases res) auto

lemma live_assign [simp]: "live (assign res0 st) = live st"
  by (cases res0) auto

lemma trace_assign [simp]: "trace (assign res0 st) = trace st"
  by (cases res0) auto

lemma holds_cong: 
  "pw_var st' = pw_var st \<Longrightarrow> browser_var st' = browser_var st \<Longrightarrow> context_var st' = context_var st \<Longrightarrow>
   holds st' res = holds st res"
  by (cases res) auto

lemma effect_plain:
  assumes "acquires c = None" "releases c = None"
  shows "pw_var (effect c st) = pw_var st" "browser_var (effect c st) = browser_var st"
    "context_var (effect c st) = context_var st" "live (effect c st) = live st"
  using assms by (cases c; simp add: effect_def)+

lemma effect_acquire:
  assumes "acquires c = Some res0"
  shows "effect c st = assign res0 (st\<lparr>live := insert res0 (live st)\<rparr>)"
  using assms by (simp add: effect_def)

lemma perform_resources:
  assumes "perform scope env c st = (r, st')" "\<not> is_release c"
  shows "\<exists>ev. trace st' = trace st @ [ev] \<and> call ev = c \<and> result ev = r \<and>
          (if r = None \<and> acquires c \<noteq> None
           then live st' = insert (the (acquires c)) (live st) \<and>
                (\<forall>x. holds st' x = (x = the (acquires c) \<or> holds st x))
           else live st' = live st \<and> (\<forall>x. holds st' x = holds st x))"
proof -
  obtain r0 d where a: "attempt scope env (length (trace st)) (timeout_of (default_timeout st) c) c = (r0, d)"
    by fastforce
  let ?st1 = "record_event c (r0, d) st"
  let ?ev = "\<lparr>call = c, target = elem st, bound = timeout_of (default_timeout st) c,
              took = d, result = r0\<rparr>"
  have h1: "\<And>x. holds ?st1 x = holds st x"
    by (rule holds_cong) (simp_all add: record_event_def)
  have l1: "live ?st1 = live st" by (simp add: record_event_def)
  have t1: "trace ?st1 = trace st @ [?ev]" by (simp add: record_event_def)
  have nr: "releases c = None" using assms(2) by (simp add: is_release_def)
  have r: "r = r0" using assms(1) a by (simp add: perform_def conclude_def)
  show ?thesis
  proof (cases "r0 = None \<and> acquires c \<noteq> None")
    case True
    then obtain res0 where res0: "acquires c = Some res0" by blast
    have st': "st' = assign res0 (?st1\<lparr>live := insert res0 (live ?st1)\<rparr>)"
      using assms(1) a True res0 by (simp add: perform_def conclude_def effect_acquire)
    have h2: "\<And>x. holds (?st1\<lparr>live := insert res0 (live ?st1)\<rparr>) x = holds st x"
      by (rule holds_cong) (simp_all add: record_event_def)
    have "trace st' = trace st @ [?ev]" using st' t1 by simp
    moreover have "live st' = insert res0 (live st)" using st' l1 by simp
    moreover have "\<forall>x. holds st' x = (x = res0 \<or> holds st x)"
      using st' h2 by (simp add: holds_assign)
    ultimately show ?thesis using r True res0 by (intro exI [of _ ?ev]) simp
  next
    case False
    have "trace st' = trace st @ [?ev] \<and> live st' = live st \<and> (\<forall>x. holds st' x = holds st x)"
    proof (cases r0)
      case (Some e)
      then have "st' = ?st1" using assms(1) a by (auto simp: perform_def conclude_def)
      then show ?thesis using h1 l1 t1 by simp
    next
      case None
      then have an: "acquires c = None" using False by simp
      have st': "st' = effect c ?st1" using assms(1) a None by (simp add: perform_def conclude_def)
      have "\<And>x. holds st' x = holds ?st1 x"
        by (rule holds_cong) (simp_all add: st' effect_plain [OF an nr])
      then show ?thesis using st' h1 l1 t1 effect_plain(4) [OF an nr] by simp
    qed
    then show ?thesis using r False by (intro exI [of _ ?ev]) auto
  qed
qed

lemma perform_consistent:
  assumes "consistent st" "\<not> is_release c" "perform scope env c st = (r, st')"
  shows "consistent st'"
proof -
  from perform_resources [OF assms(3,2)] obtain ev where ev:
    "trace st' = trace st @ [ev]" "call ev = c" "result ev = r"
    "if r = None \<and> acquires c \<noteq> None
           then live st' = insert (the (acquires c)) (live st) \<and>
                (\<forall>x. holds st' x = (x = the (acquires c) \<or> holds st x))
           else live st' = live st \<and> (\<forall>x. holds st' x = holds st x)" by blast
  have c: "closes (trace st') = []"
    using assms(1,2) ev(1,2) by (simp add: closes_snoc consistent_def)
  have a: "\<And>x. acquired (trace st') x = (acquired (trace st) x \<or> (acquires c = Some x \<and> r = None))"
    using ev(1,2,3) by (simp add: acquired_snoc)
  have old: "\<And>x. holds st x = (x \<in> live st)" "\<And>x. holds st x = acquired (trace st) x"
    using assms(1) unfolding consistent_def by blast+
  show ?thesis
  proof (cases "r = None \<and> acquires c \<noteq> None")
    case True
    then obtain res0 where res0: "acquires c = Some res0" by blast
    then have "live st' = insert res0 (live st)" "\<And>x. holds st' x = (x = res0 \<or> holds st x)"
      using ev(4) True by simp_all
    then show ?thesis unfolding consistent_def using c a old True res0 by auto
  next
    case False
    then have "live st' = live st" "\<And>x. holds st' x = holds st x"
      using ev(4) by simp_all
    then show ?thesis unfolding consistent_def using c a old False by auto
  qed
qed

lemma guarded_consistent:
  assumes "consistent st" "plain_guarded g" "\<not> is_release (call_of g)"
    "exec_guarded scope env g st = (r, st')"
  shows "consistent st'"
proof (cases g)
  case (Exec c)
  then show ?thesis using assms perform_consistent by auto
next
  case (TryExcept c cls h)
  obtain r0 st0 where p: "perform scope env c st = (r0, st0)" by fastforce
  have "st' = st0" using assms(4) p TryExcept
    by (auto simp: except_def split: option.splits if_splits handler.splits)
  then show ?thesis using perform_consistent [OF assms(1) _ p] assms(3) TryExcept by simp
next
  case (IfSet res c)
  then show ?thesis using assms by simp
qed

lemma frames_consistent:
  assumes "plain_guarded g" "\<not> is_release (call_of g)"
  shows "consistent st \<Longrightarrow> for_frames scope env k g st = (r, st') \<Longrightarrow> consistent st'"
proof (induction k arbitrary: st)
  case 0
  then show ?case by simp
next
  case (Suc k)
  obtain r1 st1 where g: "exec_guarded scope env g st = (r1, st1)" by fastforce
  have c1: "consistent st1" using guarded_consistent [OF Suc.prems(1) assms g] .
  show ?case
  proof (cases r1)
    case None
    then have "for_frames scope env k g st1 = (r, st')"
      using Suc.prems(2) g by (simp add: and_then_def)
    then show ?thesis using Suc.IH [OF c1] by simp
  next
    case (Some e)
    then have "st' = st1" using Suc.prems(2) g by (simp add: and_then_def)
    then show ?thesis using c1 by simp
  qed
qed

lemma stmts_consistent:
  "list_all body_stmt body \<Longrightarrow> consistent st \<Longrightarrow> exec_stmts scope env body st = (r, st') \<Longrightarrow>
   consistent st'"
proof (induction body arbitrary: st)
  case Nil
  then show ?case by simp
next
  case (Cons s ss)
  obtain r1 st1 where s: "exec_stmt scope env s st = (r1, st1)" by fastforce
  have b: "plain_guarded (guard_of s)" "\<not> is_release (call_of (guard_of s))"
    using Cons.prems(1) by (cases s; simp add: body_stmt_def)+
  have c1: "consistent st1"
  proof (cases s)
    case (Single g)
    then have "exec_guarded scope env g st = (r1, st1)" using s by simp
    then show ?thesis using guarded_consistent [OF Cons.prems(2)] b Single by simp
  next
    case (ForEachFrame g)
    then have "for_frames scope env (frames env) g st = (r1, st1)" using s by simp
    then show ?thesis using frames_consistent [OF _ _ Cons.prems(2)] b ForEachFrame by simp
  qed
  show ?case
  proof (cases r1)
    case None
    then have "exec_stmts scope env ss st1 = (r, st')"
      using Cons.prems(3) s by (simp add: and_then_def)
    then show ?thesis using Cons.IH [OF _ c1] Cons.prems(1) by simp
  next
    case (Some e)
    then have "st' = st1" using Cons.prems(3) s by (simp add: and_then_def)
    then show ?thesis using c1 by simp
  qed
qed

lemma holds_initial: "\<not> holds initial res"
  by (cases res) (simp_all add: initial_def)

lemma consistent_initial: "consistent initial"
  using holds_initial by (simp add: consistent_def acquired_def closes_def) (simp add: initial_def)


section \<open>The \<open>finally\<close> block\<close>

lemma perform_release:
  assumes "releases c = Some res" "perform scope env c st = (r, st')"
  shows "\<exists>ev. trace st' = trace st @ [ev] \<and> call ev = c \<and> result ev = r \<and> bound ev = None \<and>
              within ev \<and>
              (\<forall>x. holds st' x = holds st x) \<and>
              live st' = (if r = None then live st - {res} else live st)"
proof -
  obtain r0 d where a: "attempt scope env (length (trace st)) (timeout_of (default_timeout st) c) c = (r0, d)"
    by fastforce
  let ?st1 = "record_event c (r0, d) st"
  let ?ev = "\<lparr>call = c, target = elem st, bound = timeout_of (default_timeout st) c,
              took = d, result = r0\<rparr>"
  have b: "timeout_of (default_timeout st) c = None" using assms(1) by (cases c) auto
  have ac: "acquires c = None" using assms(1) by (cases c) auto
  have h1: "\<And>x. holds ?st1 x = holds st x"
    by (rule holds_cong) (simp_all add: record_event_def)
  have l1: "live ?st1 = live st" by (simp add: record_event_def)
  have t1: "trace ?st1 = trace st @ [?ev]" by (simp add: record_event_def)
  have r: "r = r0" using assms(2) a by (simp add: perform_def conclude_def)
  have w: "within ?ev" using b by (simp add: within_def)
  have "trace st' = trace st @ [?ev] \<and> (\<forall>x. holds st' x = holds st x) \<and>
        live st' = (if r = None then live st - {res} else live st)"
  proof (cases r0)
    case (Some e)
    then have "st' = ?st1" using assms(2) a by (auto simp: perform_def conclude_def)
    then show ?thesis using h1 l1 t1 r Some by simp
  next
    case None
    then have st': "st' = ?st1\<lparr>live := live ?st1 - {res}\<rparr>"
      using assms a ac by (simp add: perform_def conclude_def effect_def)
    have "\<And>x. holds st' x = holds ?st1 x"
      by (rule holds_cong) (simp_all add: st')
    then show ?thesis using st' h1 l1 t1 r None by simp
  qed
  then show ?thesis using r b w by (intro exI [of _ ?ev]) simp
qed

lemma teardown_steps:
  assumes "\<forall>(res, c) \<in> set rcs. releases c = Some res"
  shows "exec_stmts scope env (map (\<lambda>(res, c). Single (IfSet res c)) rcs) st = (r, st') \<Longrightarrow>
    \<exists>tds. trace st' = trace st @ tds \<and> (\<forall>x. holds st' x = holds st x) \<and>
      list_all (\<lambda>ev. is_release (call ev) \<and> bound ev = None \<and> within ev) tds \<and>
      prefix (map call tds) (map snd (filter (\<lambda>(res, c). holds st res) rcs)) \<and>
      live st' \<subseteq> live st \<and>
      (r = None \<longrightarrow> map call tds = map snd (filter (\<lambda>(res, c). holds st res) rcs) \<and>
         live st' = live st - {res \<in> fst ` set rcs. holds st res}) \<and>
      (\<forall>e. r = Some e \<longrightarrow> (\<exists>ev \<in> set tds. result ev = Some e))"
  using assms
proof (induction rcs arbitrary: st)
  case Nil
  then show ?case by simp
next
  case (Cons rc rcs)
  obtain res c where rc: "rc = (res, c)" by (cases rc) auto
  have rel: "releases c = Some res" using Cons.prems(2) rc by simp
  have rest: "\<forall>(res, c) \<in> set rcs. releases c = Some res" using Cons.prems(2) by simp
  obtain r1 st1 where g: "exec_guarded scope env (IfSet res c) st = (r1, st1)" by fastforce
  show ?case
  proof (cases "holds st res")
    case False
    then have "r1 = None" "st1 = st" using g by simp_all
    then have run: "exec_stmts scope env (map (\<lambda>(res, c). Single (IfSet res c)) rcs) st = (r, st')"
      using Cons.prems(1) g rc by (simp add: and_then_def)
    from Cons.IH [OF run rest] obtain tds where tds:
      "trace st' = trace st @ tds" "\<forall>x. holds st' x = holds st x"
      "list_all (\<lambda>ev. is_release (call ev) \<and> bound ev = None \<and> within ev) tds"
      "prefix (map call tds) (map snd (filter (\<lambda>(res, c). holds st res) rcs))"
      "live st' \<subseteq> live st"
      "r = None \<longrightarrow> map call tds = map snd (filter (\<lambda>(res, c). holds st res) rcs) \<and>
         live st' = live st - {res \<in> fst ` set rcs. holds st res}"
      "\<forall>e. r = Some e \<longrightarrow> (\<exists>ev \<in> set tds. result ev = Some e)" by blast
    have "{x \<in> fst ` set (rc # rcs). holds st x} = {x \<in> fst ` set rcs. holds st x}"
      using False rc by auto
    then show ?thesis using tds rc False by (intro exI [of _ tds]) simp
  next
    case True
    then have p: "perform scope env c st = (r1, st1)" using g by simp
    from perform_release [OF rel p] obtain ev where ev:
      "trace st1 = trace st @ [ev]" "call ev = c" "result ev = r1" "bound ev = None" "within ev"
      "\<forall>x. holds st1 x = holds st x"
      "live st1 = (if r1 = None then live st - {res} else live st)" by blast
    have evr: "is_release (call ev)" using ev(2) rel by (simp add: is_release_def)
    show ?thesis
    proof (cases r1)
      case (Some e)
      then have "r = Some e" "st' = st1" using Cons.prems(1) g rc by (simp_all add: and_then_def)
      then show ?thesis using ev evr Some rc True by (intro exI [of _ "[ev]"]) simp
    next
      case None
      then have run: "exec_stmts scope env (map (\<lambda>(res, c). Single (IfSet res c)) rcs) st1 = (r, st')"
        using Cons.prems(1) g rc by (simp add: and_then_def)
      from Cons.IH [OF run rest] obtain tds where tds:
        "trace st' = trace st1 @ tds" "\<forall>x. holds st' x = holds st1 x"
        "list_all (\<lambda>ev. is_release (call ev) \<and> bound ev = None \<and> within ev) tds"
        "prefix (map call tds) (map snd (filter (\<lambda>(res, c). holds st1 res) rcs))"
        "live st' \<subseteq> live st1"
        "r = None \<longrightarrow> map call tds = map snd (filter (\<lambda>(res, c). holds st1 res) rcs) \<and>
           live st' = live st1 - {res \<in> fst ` set rcs. holds st1 res}"
        "\<forall>e. r = Some e \<longrightarrow> (\<exists>ev \<in> set tds. result ev = Some e)" by blast
      have same: "filter (\<lambda>(res, c). holds st1 res) rcs = filter (\<lambda>(res, c). holds st res) rcs"
        using ev(6) by simp
      have l: "live st1 = live st - {res}" using ev(7) None by simp
      have s: "live st - {res} - {x \<in> fst ` set rcs. holds st x} =
               live st - {x \<in> fst ` set (rc # rcs). holds st x}"
        using True rc by auto
      have a: "trace st' = trace st @ (ev # tds)" using tds(1) ev(1) by simp
      have b: "\<forall>x. holds st' x = holds st x" using tds(2) ev(6) by simp
      have c: "list_all (\<lambda>ev. is_release (call ev) \<and> bound ev = None \<and> within ev) (ev # tds)"
        using tds(3) ev evr by simp
      have d: "prefix (map call (ev # tds)) (map snd (filter (\<lambda>(res, c). holds st res) (rc # rcs)))"
        using tds(4) same ev(2) rc True by simp
      have e: "live st' \<subseteq> live st" using tds(5) l by auto
      have f: "r = None \<longrightarrow> map call (ev # tds) = map snd (filter (\<lambda>(res, c). holds st res) (rc # rcs)) \<and>
           live st' = live st - {res \<in> fst ` set (rc # rcs). holds st res}"
        using tds(6) same ev(2,6) rc True l s by simp
      have g: "\<forall>e. r = Some e \<longrightarrow> (\<exists>ev \<in> set (ev # tds). result ev = Some e)"
        using tds(7) by simp
      show ?thesis using a b c d e f g by (intro exI [of _ "ev # tds"]) blast
    qed
  qed
qed


section \<open>The parts of a run\<close>

lemma teardown_map:
  "teardown = map (\<lambda>(res, c). Single (IfSet res c))
                [(Context, CloseContext), (Browser, CloseBrowser), (Driver, StopPlaywright)]"
  by (simp add: teardown_def)

lemma closes_owed_holds:
  assumes "consistent st"
  shows "closes_owed (trace st) =
         map snd (filter (\<lambda>(res, c). holds st res)
                   [(Context, CloseContext), (Browser, CloseBrowser), (Driver, StopPlaywright)])"
proof -
  have "\<And>x. acquired (trace st) x = holds st x" using assms unfolding consistent_def by blast
  then show ?thesis by (simp add: closes_owed_def)
qed

lemma resource_cases: "x = Context \<or> x = Browser \<or> x = Driver"
  by (cases x) auto

lemma run_test_parts:
  assumes "list_all body_stmt body" "run_test scope env body = (r, st)"
  shows "\<exists>r0 st1 r2 tds.
    try_block scope env body = (r0, st1) \<and>
    exec_stmts scope env teardown st1 = (r2, st) \<and>
    r = (case r2 of None \<Rightarrow> r0 | Some e \<Rightarrow> Some e) \<and>
    consistent st1 \<and>
    list_all within (trace st1) \<and> list_all (explained scope) (trace st1) \<and>
    conforms r0 (trace st1) (listing (frames env) body) \<and>
    trace st = trace st1 @ tds \<and>
    list_all (\<lambda>ev. is_release (call ev) \<and> bound ev = None \<and> within ev) tds \<and>
    prefix (map call tds) (closes_owed (trace st1)) \<and>
    (r2 = None \<longrightarrow> map call tds = closes_owed (trace st1) \<and> live st = {}) \<and>
    (\<forall>e. r2 = Some e \<longrightarrow> (\<exists>ev \<in> set tds. result ev = Some e))"
proof -
  obtain r0 st1 where t: "try_block scope env body = (r0, st1)" by fastforce
  obtain r2 st2 where f: "exec_stmts scope env teardown st1 = (r2, st2)" by fastforce
  have st: "st = st2" and r: "r = (case r2 of None \<Rightarrow> r0 | Some e \<Rightarrow> Some e)"
    using assms(2) t f by (auto simp: run_test_def finally_block_def split: option.splits)
  have pl: "list_all plain body"
    using assms(1) by (simp add: list_all_iff body_stmt_def)
  have ex: "exec_stmts scope env body initial = (r0, st1)" using t by (simp add: try_block_def)
  have c1: "consistent st1" using stmts_consistent [OF assms(1) consistent_initial ex] .
  from stmts_conforms [OF pl ex] obtain evs where evs:
    "trace st1 = trace initial @ evs" "list_all within evs" "list_all (explained scope) evs"
    "conforms r0 evs (fst (walk (frames env) body (in_force initial)))" by blast
  have i: "trace initial = []" "in_force initial = (None, None)"
    by (simp_all add: initial_def in_force_def)
  have f': "exec_stmts scope env
              (map (\<lambda>(res, c). Single (IfSet res c))
                [(Context, CloseContext), (Browser, CloseBrowser), (Driver, StopPlaywright)]) st1
            = (r2, st2)"
    using f teardown_map by simp
  have rel: "\<forall>(res, c) \<in> set [(Context, CloseContext), (Browser, CloseBrowser), (Driver, StopPlaywright)].
               releases c = Some res" by simp
  from teardown_steps [OF rel f'] obtain tds where tds:
    "trace st2 = trace st1 @ tds"
    "list_all (\<lambda>ev. is_release (call ev) \<and> bound ev = None \<and> within ev) tds"
    "prefix (map call tds) (map snd (filter (\<lambda>(res, c). holds st1 res)
        [(Context, CloseContext), (Browser, CloseBrowser), (Driver, StopPlaywright)]))"
    "r2 = None \<longrightarrow> map call tds = map snd (filter (\<lambda>(res, c). holds st1 res)
        [(Context, CloseContext), (Browser, CloseBrowser), (Driver, StopPlaywright)]) \<and>
      live st2 = live st1 - {res \<in> fst ` set [(Context, CloseContext), (Browser, CloseBrowser),
                                  (Driver, StopPlaywright)]. holds st1 res}"
    "\<forall>e. r2 = Some e \<longrightarrow> (\<exists>ev \<in> set tds. result ev = Some e)" by blast
  have l: "\<And>x. holds st1 x = (x \<in> live st1)" using c1 unfolding consistent_def by blast
  have empty: "live st1 - {res \<in> fst ` set [(Context, CloseContext), (Browser, CloseBrowser),
                                  (Driver, StopPlaywright)]. holds st1 res} = {}"
  proof -
    have "x \<in> live st1 \<Longrightarrow> x \<in> {Context, Browser, Driver} \<and> holds st1 x" for x
      using l resource_cases [of x] by auto
    then show ?thesis by auto
  qed
  have a: "trace st1 = evs" using evs(1) i by simp
  show ?thesis
    using t f st r c1 evs(2,3,4) a i tds empty closes_owed_holds [OF c1]
    by (intro exI [of _ r0] exI [of _ st1] exI [of _ r2] exI [of _ tds]) (simp add: listing_def)
qed


section \<open>Evaluating a run\<close>

lemma expect_unbound: "''expect'' \<notin> set module_scope"
  by (simp add: module_scope_def local_names_def module_header_def python_builtins_def)

lemma and_then_None: "and_then (None, st) f = f st" by (simp add: and_then_def)
lemma and_then_Some: "and_then (Some e, st) f = (Some e, st)" by (simp add: and_then_def)
lemma and_then_cong: "m = m' \<Longrightarrow> and_then m f = and_then m' f" by simp
lemma conclude_None: "conclude c (None, d) st = (None, effect c (record_event c (None, d) st))"
  by (simp add: conclude_def)
lemma conclude_Some: "conclude c (Some e, d) st = (Some e, record_event c (Some e, d) st)"
  by (simp add: conclude_def)
lemma except_None: "except cls h (None, st) = (None, st)" by (simp add: except_def)
lemma except_Some:
  "except cls h (Some e, st) =
     (if isinstance e cls then (case h of Pass \<Rightarrow> (None, st) | Raise e' \<Rightarrow> (Some e', st))
      else (Some e, st))"
  by (simp add: except_def)
lemma frames_one: "for_frames scope env 1 g st = for_frames scope env (Suc 0) g st"
  by simp
lemma finally_block_pair:
  "finally_block scope env (r, st) = and_then (exec_stmts scope env teardown st) (Pair r)"
  by (simp add: finally_block_def and_then_def split: prod.splits option.splits)

lemmas script_defs =
  TC001_def TC001_actions_def TC003_def TC003_actions_def TC007_def TC007_actions_def
  TC008_def TC008_actions_def session_setup_def fill_step_def click_step_def expect_step_def

lemmas run_rules =
  run_test_def try_block_def finally_block_pair teardown_def frames_one except_None except_Some
  perform_def conclude_None conclude_Some and_then_None and_then_Some record_event_def
  effect_def initial_def expect_unbound

section \<open>The scenarios are bodies\<close>

lemma scenario_bodies: "body \<in> set scenarios \<Longrightarrow> list_all body_stmt body"
  by (auto simp: scenarios_def script_defs body_stmt_def is_release_def)


section \<open>The listings of the scenarios\<close>

lemma walk_frames_same:
  "remember (call_of g) p = p \<Longrightarrow> walk_frames n g p = (replicate n (planned g p), p)"
  by (induction n) auto

lemma walk_append:
  "walk n (xs @ ys) p =
     (case walk n xs p of (a, p') \<Rightarrow> (case walk n ys p' of (b, p'') \<Rightarrow> (a @ b, p'')))"
proof (induction xs arbitrary: p)
  case Nil
  then show ?case by (simp split: prod.splits)
next
  case (Cons s xs)
  then show ?case by (cases s) (simp_all split: prod.splits)
qed

lemma walk_setup: "walk n session_setup (None, None) = (setup_entries n, (None, Some 5000))"
  by (simp add: session_setup_def setup_entries_def walk_frames_same planned_def)

lemma listing_setup:
  "listing n (session_setup @ rest) = setup_entries n @ fst (walk n rest (None, Some 5000))"
  by (simp add: listing_def walk_append walk_setup split: prod.splits)

lemma setup_entries_ok: "list_all entry_ok (setup_entries n)"
  by (simp add: setup_entries_def entry_ok_def list_all_iff)

lemmas action_defs =
  TC001_actions_def TC003_actions_def TC007_actions_def TC008_actions_def
  fill_step_def click_step_def expect_step_def

lemma listing_ok: "body \<in> set scenarios \<Longrightarrow> list_all entry_ok (listing n body)"
  by (auto simp: scenarios_def TC001_def TC003_def TC007_def TC008_def listing_setup
        setup_entries_ok action_defs planned_def entry_ok_def)

lemma length_session_setup: "length session_setup = 8"
  by (simp add: session_setup_def)

lemma listing_length: "body \<in> set scenarios \<Longrightarrow> length (listing n body) + 1 = length body + n"
  by (auto simp: scenarios_def TC001_def TC003_def TC007_def TC008_def listing_setup
        setup_entries_def length_session_setup action_defs)


section \<open>Events of a run and entries of the listing\<close>

lemma conforms_prefix:
  "conforms r evs ps \<Longrightarrow>
   prefix (map (\<lambda>ev. (call ev, target ev, bound ev)) evs)
          (map (\<lambda>x. (call_of (fst x), fst (snd x), snd (snd x))) ps)"
  by (induction r evs ps rule: conforms.induct) (auto split: option.splits)

lemma conforms_entry:
  assumes "conforms r evs ps" "ev \<in> set evs"
  shows "\<exists>g tg. (g, tg, bound ev) \<in> set ps \<and> call ev = call_of g \<and> target ev = tg"
proof -
  have "(call ev, target ev, bound ev) \<in> set (map (\<lambda>ev. (call ev, target ev, bound ev)) evs)"
    using assms(2) by auto
  then have "(call ev, target ev, bound ev) \<in>
             set (map (\<lambda>x. (call_of (fst x), fst (snd x), snd (snd x))) ps)"
    using set_mono_prefix [OF conforms_prefix [OF assms(1)]] by blast
  then obtain x where "x \<in> set ps" "call ev = call_of (fst x)" "target ev = fst (snd x)"
    "bound ev = snd (snd x)" by auto
  then show ?thesis by (intro exI [of _ "fst x"] exI [of _ "fst (snd x)"]) simp
qed

lemma conforms_length: "conforms r evs ps \<Longrightarrow> length evs \<le> length ps"
  using prefix_length_le [OF conforms_prefix] by fastforce

lemma closes_owed_length: "length (closes_owed tr) \<le> 3"
  by (simp add: closes_owed_def)

lemma run_event:
  assumes "body \<in> set scenarios" "run_test scope env body = (r, st)" "ev \<in> set (trace st)"
  shows "within ev \<and>
         ((is_release (call ev) \<and> bound ev = None) \<or>
          (\<exists>g tg. entry_ok (g, tg, bound ev) \<and> call ev = call_of g))"
proof -
  from run_test_parts [OF scenario_bodies [OF assms(1)] assms(2)]
  obtain r0 and st1 :: state and tds where p:
    "list_all within (trace st1)"
    "conforms r0 (trace st1) (listing (frames env) body)"
    "trace st = trace st1 @ tds"
    "list_all (\<lambda>ev. is_release (call ev) \<and> bound ev = None \<and> within ev) tds" by blast
  show ?thesis
  proof (cases "ev \<in> set tds")
    case True
    then show ?thesis using p(4) by (auto simp: list_all_iff)
  next
    case False
    then have ev: "ev \<in> set (trace st1)" using assms(3) p(3) by simp
    from conforms_entry [OF p(2) ev] obtain g tg where
      g: "(g, tg, bound ev) \<in> set (listing (frames env) body)" "call ev = call_of g" by blast
    have "entry_ok (g, tg, bound ev)"
      using listing_ok [OF assms(1), of "frames env"] g(1) by (auto simp: list_all_iff)
    then show ?thesis using ev p(1) g(2) by (auto simp: list_all_iff)
  qed
qed

lemma run_length:
  assumes "body \<in> set scenarios" "run_test scope env body = (r, st)"
  shows "length (trace st) \<le> length body + frames env + 2"
proof -
  from run_test_parts [OF scenario_bodies [OF assms(1)] assms(2)]
  obtain r0 and st1 :: state and tds where p:
    "conforms r0 (trace st1) (listing (frames env) body)"
    "trace st = trace st1 @ tds"
    "prefix (map call tds) (closes_owed (trace st1))" by blast
  have "length tds \<le> 3"
    using prefix_length_le [OF p(3)] closes_owed_length [of "trace st1"] by simp
  moreover have "length (trace st1) + 1 \<le> length body + frames env"
    using conforms_length [OF p(1)] listing_length [OF assms(1), of "frames env"] by simp
  ultimately show ?thesis using p(2) by simp
qed

lemma release_not_timed: "is_release c \<Longrightarrow> \<not> timeout_kind c"
  by (cases c) (auto simp: is_release_def)

lemma timed_time_le:
  "(\<And>ev. ev \<in> set tr \<Longrightarrow> timeout_kind (call ev) \<Longrightarrow> took ev \<le> k) \<Longrightarrow>
   timed_time tr \<le> k * length tr"
proof (induction tr)
  case Nil
  then show ?case by (simp add: timed_time_def)
next
  case (Cons ev tr)
  have "timed_time tr \<le> k * length tr" using Cons by simp
  moreover have "timeout_kind (call ev) \<Longrightarrow> took ev \<le> k" using Cons.prems by simp
  ultimately show ?case by (auto simp: timed_time_def)
qed

lemma time_split: "sum_list (map took tr) = timed_time tr + untimed_time tr"
  by (induction tr) (auto simp: timed_time_def untimed_time_def)


section \<open>The clock\<close>

lemma clock_effect: "clock (effect c st) = clock st"
proof (cases "acquires c")
  case None
  then show ?thesis by (cases c) (auto simp: effect_def)
next
  case (Some res)
  then show ?thesis by (cases res) (auto simp: effect_def)
qed

lemma perform_clock:
  assumes "perform scope env c st = (r, st')" "clock st = sum_list (map took (trace st))"
  shows "clock st' = sum_list (map took (trace st'))"
proof -
  obtain r0 d where a: "attempt scope env (length (trace st)) (timeout_of (default_timeout st) c) c = (r0, d)"
    by fastforce
  let ?st1 = "record_event c (r0, d) st"
  have c1: "clock ?st1 = sum_list (map took (trace ?st1))"
    using assms(2) by (simp add: record_event_def)
  have "st' = ?st1 \<or> st' = effect c ?st1"
    using assms(1) a by (auto simp: perform_def conclude_def split: if_splits)
  then show ?thesis using c1 clock_effect by auto
qed

lemma guarded_clock:
  assumes "exec_guarded scope env g st = (r, st')" "clock st = sum_list (map took (trace st))"
  shows "clock st' = sum_list (map took (trace st'))"
proof (cases g)
  case (Exec c)
  then show ?thesis using assms perform_clock by auto
next
  case (TryExcept c cls h)
  obtain r0 st0 where p: "perform scope env c st = (r0, st0)" by fastforce
  have "st' = st0" using assms(1) p TryExcept
    by (auto simp: except_def split: option.splits if_splits handler.splits)
  then show ?thesis using perform_clock [OF p assms(2)] by simp
next
  case (IfSet res c)
  show ?thesis
  proof (cases "holds st res")
    case True
    then have "perform scope env c st = (r, st')" using assms(1) IfSet by simp
    then show ?thesis using perform_clock assms(2) by blast
  next
    case False
    then show ?thesis using assms IfSet by simp
  qed
qed

lemma frames_clock:
  "for_frames scope env k g st = (r, st') \<Longrightarrow> clock st = sum_list (map took (trace st)) \<Longrightarrow>
   clock st' = sum_list (map took (trace st'))"
proof (induction k arbitrary: st)
  case 0
  then show ?case by simp
next
  case (Suc k)
  obtain r1 st1 where g: "exec_guarded scope env g st = (r1, st1)" by fastforce
  have c1: "clock st1 = sum_list (map took (trace st1))"
    using guarded_clock [OF g Suc.prems(2)] .
  show ?case
  proof (cases r1)
    case None
    then have "for_frames scope env k g st1 = (r, st')"
      using Suc.prems(1) g by (simp add: and_then_def)
    then show ?thesis using Suc.IH c1 by blast
  next
    case (Some e)
    then have "st' = st1" using Suc.prems(1) g by (simp add: and_then_def)
    then show ?thesis using c1 by simp
  qed
qed

lemma stmts_clock:
  "exec_stmts scope env body st = (r, st') \<Longrightarrow> clock st = sum_list (map took (trace st)) \<Longrightarrow>
   clock st' = sum_list (map took (trace st'))"
proof (induction body arbitrary: st)
  case Nil
  then show ?case by simp
next
  case (Cons s ss)
  obtain r1 st1 where s: "exec_stmt scope env s st = (r1, st1)" by fastforce
  have c1: "clock st1 = sum_list (map took (trace st1))"
  proof (cases s)
    case (Single g)
    then have "exec_guarded scope env g st = (r1, st1)" using s by simp
    then show ?thesis using guarded_clock Cons.prems(2) by blast
  next
    case (ForEachFrame g)
    then have "for_frames scope env (frames env) g st = (r1, st1)" using s by simp
    then show ?thesis using frames_clock Cons.prems(2) by blast
  qed
  show ?case
  proof (cases r1)
    case None
    then have "exec_stmts scope env ss st1 = (r, st')"
      using Cons.prems(1) s by (simp add: and_then_def)
    then show ?thesis using Cons.IH c1 by blast
  next
    case (Some e)
    then have "st' = st1" using Cons.prems(1) s by (simp add: and_then_def)
    then show ?thesis using c1 by simp
  qed
qed

lemma run_clock:
  assumes "run_test scope env body = (r, st)"
  shows "clock st = timed_time (trace st) + untimed_time (trace st)"
proof -
  obtain r0 st1 where t: "exec_stmts scope env body initial = (r0, st1)" by fastforce
  obtain r2 st2 where f: "exec_stmts scope env teardown st1 = (r2, st2)" by fastforce
  have st: "st = st2"
    using assms t f by (auto simp: run_test_def try_block_def finally_block_def split: option.splits)
  have "clock initial = sum_list (map took (trace initial))" by (simp add: initial_def)
  from stmts_clock [OF t this] have "clock st1 = sum_list (map took (trace st1))" .
  from stmts_clock [OF f this] show ?thesis using st time_split by simp
qed


section \<open>Pauses before interactive calls\<close>

lemma paused_join:
  "paused_from prev xs \<Longrightarrow> ys = [] \<or> \<not> interactive (hd ys) \<Longrightarrow> paused_from None ys \<Longrightarrow>
   paused_from prev (xs @ ys)"
proof (induction xs arbitrary: prev)
  case Nil
  then show ?case by (cases ys) auto
next
  case (Cons x xs)
  then show ?case by simp
qed

lemma paused_replicate: "\<not> interactive c \<Longrightarrow> paused_from prev (replicate n c)"
  by (induction n arbitrary: prev) auto

lemma paused_take: "paused_from prev (xs @ zs) \<Longrightarrow> paused_from prev xs"
  by (induction xs arbitrary: prev) auto

lemma paused_prefix: "prefix xs ys \<Longrightarrow> paused_from prev ys \<Longrightarrow> paused_from prev xs"
  using paused_take by (auto simp: prefix_def)

lemma paused_plain: "list_all (\<lambda>c. \<not> interactive c) ys \<Longrightarrow> paused_from prev ys"
  by (induction ys arbitrary: prev) auto

lemma paused_append_plain:
  "paused_from prev xs \<Longrightarrow> list_all (\<lambda>c. \<not> interactive c) ys \<Longrightarrow> paused_from prev (xs @ ys)"
proof (induction xs arbitrary: prev)
  case Nil
  then show ?case using paused_plain by simp
next
  case (Cons x xs)
  then show ?case by simp
qed

lemma paused_nth:
  "paused_from prev cs \<Longrightarrow> i < length cs \<Longrightarrow> interactive (cs ! i) \<Longrightarrow>
   (if i = 0 then prev else Some (cs ! (i - 1))) = Some (WaitForTimeout 3000)"
proof (induction cs arbitrary: prev i)
  case Nil
  then show ?case by simp
next
  case (Cons c cs)
  show ?case
  proof (cases i)
    case 0
    then show ?thesis using Cons.prems by simp
  next
    case (Suc j)
    then have "(if j = 0 then Some c else Some (cs ! (j - 1))) = Some (WaitForTimeout 3000)"
      using Cons.IH [of "Some c" j] Cons.prems by simp
    then show ?thesis using Suc by (cases j) auto
  qed
qed

lemma paused_setup: "paused_from None (map (\<lambda>x. call_of (fst x)) (setup_entries n))"
  by (cases n) (simp_all add: setup_entries_def paused_replicate)

lemma paused_after_setup:
  assumes "paused_from None cs" "cs = [] \<or> \<not> interactive (hd cs)"
  shows "paused_from None (map (\<lambda>x. call_of (fst x)) (setup_entries n) @ cs)"
  using paused_join [OF paused_setup assms(2) assms(1)] .

lemma script_calls_setup:
  "script_calls n (session_setup @ rest) =
     map (\<lambda>x. call_of (fst x)) (setup_entries n) @
     map (\<lambda>x. call_of (fst x)) (fst (walk n rest (None, Some 5000)))"
  by (simp add: script_calls_def listing_setup)

lemma scenario_paused:
  assumes "body \<in> set scenarios"
  shows "paused_from None (script_calls n body)"
proof -
  from assms consider "body = TC001" | "body = TC003" | "body = TC007" | "body = TC008"
    by (auto simp: scenarios_def)
  then show ?thesis
  proof cases
    case 1
    show ?thesis unfolding 1 TC001_def script_calls_setup
      by (rule paused_after_setup) (simp_all add: action_defs planned_def)
  next
    case 2
    show ?thesis unfolding 2 TC003_def script_calls_setup
      by (rule paused_after_setup) (simp_all add: action_defs planned_def)
  next
    case 3
    show ?thesis unfolding 3 TC007_def script_calls_setup
      by (rule paused_after_setup) (simp_all add: action_defs planned_def)
  next
    case 4
    show ?thesis unfolding 4 TC008_def script_calls_setup
      by (rule paused_after_setup) (simp_all add: action_defs planned_def)
  qed
qed

lemma release_not_interactive: "is_release c \<Longrightarrow> \<not> interactive c"
  by (cases c) (auto simp: is_release_def)

lemma body_calls_run:
  assumes "body \<in> set scenarios" "run_test scope env body = (r, st)"
  shows "\<exists>cs ds. map call (trace st) = cs @ ds \<and> body_calls (trace st) = cs \<and>
                 prefix cs (script_calls (frames env) body) \<and> list_all is_release ds"
proof -
  from run_test_parts [OF scenario_bodies [OF assms(1)] assms(2)]
  obtain r0 and st1 :: state and tds where p:
    "consistent st1"
    "conforms r0 (trace st1) (listing (frames env) body)"
    "trace st = trace st1 @ tds"
    "list_all (\<lambda>ev. is_release (call ev) \<and> bound ev = None \<and> within ev) tds" by blast
  have n: "filter is_release (map call (trace st1)) = []"
    using p(1) by (simp add: consistent_def closes_def)
  then have a: "filter (\<lambda>c. \<not> is_release c) (map call (trace st1)) = map call (trace st1)"
    by (simp add: filter_empty_conv)
  have d: "list_all is_release (map call tds)" using p(4) by (simp add: list_all_iff)
  then have b: "filter (\<lambda>c. \<not> is_release c) (map call tds) = []"
    by (simp add: list_all_iff filter_empty_conv)
  have "prefix (map fst (map (\<lambda>ev. (call ev, target ev, bound ev)) (trace st1)))
          (map fst (map (\<lambda>x. (call_of (fst x), fst (snd x), snd (snd x)))
             (listing (frames env) body)))"
    using conforms_prefix [OF p(2)] by (rule map_mono_prefix)
  then have c: "prefix (map call (trace st1)) (script_calls (frames env) body)"
    by (simp add: script_calls_def comp_def)
  show ?thesis
    using a b c d p(3)
    by (intro exI [of _ "map call (trace st1)"] exI [of _ "map call tds"])
       (simp add: body_calls_def)
qed


section \<open>Positions in a conforming run\<close>

lemma conforms_Cons:
  assumes "conforms r (ev # evs) (x # ps)" "evs \<noteq> []"
  shows "conforms r evs ps"
  using assms by (cases x) (auto split: option.splits)

lemma conforms_nonempty: "conforms r [] ps \<Longrightarrow> ps = []"
  by simp

lemma conforms_nth:
  "conforms r evs ps \<Longrightarrow> i < length evs \<Longrightarrow>
   i < length ps \<and> call (evs ! i) = call_of (fst (ps ! i)) \<and> bound (evs ! i) = snd (snd (ps ! i))"
proof (induction evs arbitrary: ps i)
  case Nil
  then show ?case by simp
next
  case (Cons ev evs)
  then obtain x ps' where ps: "ps = x # ps'" by (cases ps) auto
  show ?case
  proof (cases i)
    case 0
    then show ?thesis using Cons.prems ps by (cases x) auto
  next
    case (Suc j)
    then have "evs \<noteq> []" using Cons.prems(2) by auto
    then have "conforms r evs ps'" using conforms_Cons Cons.prems(1) ps by blast
    then show ?thesis using Cons.IH [of ps' j] Cons.prems(2) Suc ps by simp
  qed
qed

lemma conforms_next:
  "conforms r evs ps \<Longrightarrow> i < length evs \<Longrightarrow> result (evs ! i) = Some e \<Longrightarrow>
   surfaces (fst (ps ! i)) e = None \<Longrightarrow> Suc i < length ps \<Longrightarrow> Suc i < length evs"
proof (induction evs arbitrary: ps i)
  case Nil
  then show ?case by simp
next
  case (Cons ev evs)
  then obtain x ps' where ps: "ps = x # ps'" by (cases ps) auto
  show ?case
  proof (cases i)
    case 0
    then have "conforms r evs ps'" using Cons.prems ps by (cases x) auto
    moreover have "ps' \<noteq> []" using Cons.prems(5) ps 0 by auto
    ultimately have "evs \<noteq> []" by auto
    then show ?thesis using 0 by simp
  next
    case (Suc j)
    then have "evs \<noteq> []" using Cons.prems(2) by auto
    then have "conforms r evs ps'" using conforms_Cons Cons.prems(1) ps by blast
    then show ?thesis using Cons.IH [of ps' j] Cons.prems Suc ps by simp
  qed
qed

lemma conforms_stops:
  "conforms r evs ps \<Longrightarrow> i < length evs \<Longrightarrow> result (evs ! i) = Some e \<Longrightarrow>
   surfaces (fst (ps ! i)) e = Some e' \<Longrightarrow> r = Some e' \<and> Suc i = length evs"
proof (induction evs arbitrary: ps i)
  case Nil
  then show ?case by simp
next
  case (Cons ev evs)
  then obtain x ps' where ps: "ps = x # ps'" by (cases ps) auto
  show ?case
  proof (cases i)
    case 0
    then show ?thesis using Cons.prems ps by (cases x) auto
  next
    case (Suc j)
    then have "evs \<noteq> []" using Cons.prems(2) by auto
    then have "conforms r evs ps'" using conforms_Cons Cons.prems(1) ps by blast
    then show ?thesis using Cons.IH [of ps' j] Cons.prems Suc ps by simp
  qed
qed

lemma conforms_complete: "conforms None evs ps \<Longrightarrow> length evs = length ps"
  by (induction "None :: exn option" evs ps rule: conforms.induct) (auto split: option.splits)

lemma conforms_raised_last:
  "conforms (Some e') evs ps \<Longrightarrow>
   evs \<noteq> [] \<and> (\<exists>e. result (last evs) = Some e \<and>
                    surfaces (fst (ps ! (length evs - 1))) e = Some e')"
proof (induction evs arbitrary: ps)
  case Nil
  then show ?case by simp
next
  case (Cons ev evs)
  then obtain x ps' where ps: "ps = x # ps'" by (cases ps) auto
  show ?case
  proof (cases "evs = []")
    case True
    then show ?thesis using Cons.prems ps by (cases x) (auto split: option.splits)
  next
    case False
    then have "conforms (Some e') evs ps'" using conforms_Cons Cons.prems ps by blast
    from Cons.IH [OF this] False show ?thesis using ps by (cases evs) auto
  qed
qed

section \<open>Load-state waits in the listings\<close>

lemma setup_load_waits:
  "list_all (\<lambda>x. load_wait (call_of (fst x)) \<longrightarrow> surfaces (fst x) PlaywrightTimeoutError = None)
     (setup_entries n)"
  by (simp add: setup_entries_def list_all_iff)

lemma listing_load_waits:
  "body \<in> set scenarios \<Longrightarrow>
   list_all (\<lambda>x. load_wait (call_of (fst x)) \<longrightarrow> surfaces (fst x) PlaywrightTimeoutError = None)
     (listing n body)"
  by (auto simp: scenarios_def TC001_def TC003_def TC007_def TC008_def listing_setup
        setup_load_waits action_defs planned_def)

lemma listing_last:
  "body \<in> set scenarios \<Longrightarrow>
   listing n body \<noteq> [] \<and> \<not> load_wait (call_of (fst (last (listing n body))))"
  by (auto simp: scenarios_def TC001_def TC003_def TC007_def TC008_def listing_setup
        action_defs planned_def)


section \<open>The exceptions of a run\<close>

lemma harmless_no_assertion:
  assumes "harmless g" "may_raise scope (call_of g) e"
  shows "surfaces g e \<noteq> Some (AssertionError m)"
proof (cases g)
  case (Exec c)
  then show ?thesis using assms by (cases c) auto
next
  case (TryExcept c cls h)
  then show ?thesis using assms by (cases c) auto
next
  case (IfSet res c)
  then show ?thesis using assms by simp
qed

lemma harmless_not_expect: "harmless g \<Longrightarrow> \<not> is_expect (call_of g)"
  by (cases g) auto

lemma expect_shape_raises:
  assumes "expect_step_shape g"
  shows "cannot_return module_scope (call_of g)"
    and "may_raise module_scope (call_of g) e \<Longrightarrow>
         e = NameError ''expect'' \<and> surfaces g e = Some (NameError ''expect'')"
  using assms expect_unbound by (induction g rule: expect_step_shape.induct) auto

lemma setup_shapes:
  "list_all (\<lambda>x. harmless (fst x) \<or> expect_step_shape (fst x)) (setup_entries n)"
  by (simp add: setup_entries_def list_all_iff)

lemma listing_shapes:
  "body \<in> set expect_scenarios \<Longrightarrow>
   list_all (\<lambda>x. harmless (fst x) \<or> expect_step_shape (fst x)) (listing n body)"
  by (auto simp: expect_scenarios_def TC001_def TC003_def TC008_def listing_setup
        setup_shapes action_defs planned_def)

lemma listing_has_expect:
  "body \<in> set expect_scenarios \<Longrightarrow> list_ex (\<lambda>x. expect_step_shape (fst x)) (listing n body)"
  by (auto simp: expect_scenarios_def TC001_def TC003_def TC008_def listing_setup
        action_defs planned_def)

lemma expect_scenarios_sub: "body \<in> set expect_scenarios \<Longrightarrow> body \<in> set scenarios"
  by (auto simp: expect_scenarios_def scenarios_def)

lemma teardown_raises:
  assumes "\<forall>(res, c) \<in> set rcs. releases c = Some res"
  shows "exec_stmts scope env (map (\<lambda>(res, c). Single (IfSet res c)) rcs) st = (Some e, st') \<Longrightarrow>
         e \<in> {PlaywrightError, PlaywrightTimeoutError, DriverFailure}"
  using assms
proof (induction rcs arbitrary: st)
  case Nil
  then show ?case by simp
next
  case (Cons rc rcs)
  obtain res c where rc: "rc = (res, c)" by (cases rc) auto
  have rel: "releases c = Some res" using Cons.prems(2) rc by simp
  have rest: "\<forall>(res, c) \<in> set rcs. releases c = Some res" using Cons.prems(2) by simp
  obtain r1 st1 where g: "exec_guarded scope env (IfSet res c) st = (r1, st1)" by fastforce
  show ?case
  proof (cases r1)
    case None
    then have "exec_stmts scope env (map (\<lambda>(res, c). Single (IfSet res c)) rcs) st1 = (Some e, st')"
      using Cons.prems(1) g rc by (simp add: and_then_def)
    then show ?thesis using Cons.IH rest by blast
  next
    case (Some e1)
    then have e: "e = e1" using Cons.prems(1) g rc by (simp add: and_then_def)
    have p: "perform scope env c st = (Some e1, st1)"
      using g Some by (auto split: if_splits)
    from perform_event [OF p] obtain ev where "call ev = c" "result ev = Some e1"
      "explained scope ev" by blast
    then have "may_raise scope c e1" by (simp add: explained_def)
    then show ?thesis using rel e by (cases c) auto
  qed
qed

lemma teardown_exn:
  assumes "exec_stmts scope env teardown st = (Some e, st')"
  shows "e \<in> {PlaywrightError, PlaywrightTimeoutError, DriverFailure}"
proof -
  have "exec_stmts scope env
          (map (\<lambda>(res, c). Single (IfSet res c))
             [(Context, CloseContext), (Browser, CloseBrowser), (Driver, StopPlaywright)]) st
        = (Some e, st')"
    using assms unfolding teardown_map .
  from teardown_raises [OF _ this] show ?thesis by simp
qed


section \<open>The listing at a position of a run\<close>

lemma conforms_nth_target:
  assumes "conforms r evs ps" "i < length evs"
  shows "target (evs ! i) = fst (snd (ps ! i))"
proof -
  from conforms_prefix [OF assms(1)] obtain zs where
    z: "map (\<lambda>x. (call_of (fst x), fst (snd x), snd (snd x))) ps =
        map (\<lambda>ev. (call ev, target ev, bound ev)) evs @ zs"
    by (auto simp: prefix_def)
  have l: "i < length ps" using conforms_nth [OF assms] by simp
  have "map (\<lambda>x. (call_of (fst x), fst (snd x), snd (snd x))) ps ! i =
        (map (\<lambda>ev. (call ev, target ev, bound ev)) evs @ zs) ! i" using z by simp
  then have "(call_of (fst (ps ! i)), fst (snd (ps ! i)), snd (snd (ps ! i))) =
             (call (evs ! i), target (evs ! i), bound (evs ! i))"
    using l assms(2) by (simp add: nth_append)
  then show ?thesis by simp
qed

lemma conforms_goes_on:
  assumes "conforms r evs ps" "Suc i < length evs"
  shows "case result (evs ! i) of None \<Rightarrow> True | Some e \<Rightarrow> surfaces (fst (ps ! i)) e = None"
proof (cases "result (evs ! i)")
  case None
  then show ?thesis by simp
next
  case (Some e)
  have i: "i < length evs" using assms(2) by simp
  show ?thesis
  proof (cases "surfaces (fst (ps ! i)) e")
    case None
    then show ?thesis using Some by simp
  next
    case (Some e')
    from conforms_stops [OF assms(1) i \<open>result (evs ! i) = Some e\<close> Some]
    show ?thesis using assms(2) by simp
  qed
qed

lemma conforms_calls:
  assumes "conforms r evs ps"
  shows "prefix (map call evs) (map (\<lambda>x. call_of (fst x)) ps)"
proof -
  have "prefix (map fst (map (\<lambda>ev. (call ev, target ev, bound ev)) evs))
          (map fst (map (\<lambda>x. (call_of (fst x), fst (snd x), snd (snd x))) ps))"
    using conforms_prefix [OF assms] by (rule map_mono_prefix)
  then show ?thesis by (simp add: comp_def)
qed

lemma conforms_all_calls:
  assumes "conforms None evs ps"
  shows "map call evs = map (\<lambda>x. call_of (fst x)) ps"
proof -
  from conforms_calls [OF assms] obtain zs where
    z: "map (\<lambda>x. call_of (fst x)) ps = map call evs @ zs" by (auto simp: prefix_def)
  have "length (map (\<lambda>x. call_of (fst x)) ps) = length (map call evs @ zs)" using z by simp
  then have "zs = []" using conforms_complete [OF assms] by simp
  then show ?thesis using z by simp
qed

lemma TC008_listing:
  "listing n TC008 ! (n + 20) = (Exec (Click 5000), Some submit_button, Some 5000)"
  "listing n TC008 ! (n + 36) = (Exec (Fill email_text), Some email_input, Some 5000)"
  "listing n TC008 ! (n + 44) = (Exec (Click 5000), Some submit_button, Some 5000)"
proof -
  have l: "length (setup_entries n) = n + 7" by (simp add: setup_entries_def)
  have a: "listing n TC008 ! (n + 7 + k) =
           fst (walk n (TC008_actions @
             [Single (Exec LastPage), expect_step (''text='' @ TC008_text) TC008_message,
              Single (Exec (Sleep 5))]) (None, Some 5000)) ! k" for k
    unfolding TC008_def listing_setup using l by (simp add: nth_append)
  have e: "n + 7 + 13 = n + 20" "n + 7 + 29 = n + 36" "n + 7 + 37 = n + 44" by simp_all
  have "listing n TC008 ! (n + 7 + 13) = (Exec (Click 5000), Some submit_button, Some 5000)"
    unfolding a by (simp add: action_defs planned_def)
  then show "listing n TC008 ! (n + 20) = (Exec (Click 5000), Some submit_button, Some 5000)"
    unfolding e .
  have "listing n TC008 ! (n + 7 + 29) = (Exec (Fill email_text), Some email_input, Some 5000)"
    unfolding a by (simp add: action_defs planned_def)
  then show "listing n TC008 ! (n + 36) = (Exec (Fill email_text), Some email_input, Some 5000)"
    unfolding e .
  have "listing n TC008 ! (n + 7 + 37) = (Exec (Click 5000), Some submit_button, Some 5000)"
    unfolding a by (simp add: action_defs planned_def)
  then show "listing n TC008 ! (n + 44) = (Exec (Click 5000), Some submit_button, Some 5000)"
    unfolding e .
qed

lemma TC003_listing:
  "listing n TC003 ! (n + 19) = (Exec (Click 5000), Some submit_button, Some 5000)"
  "listing n TC003 ! (n + 31) = (Exec (Fill email_text), Some email_input, Some 5000)"
  "listing n TC003 ! (n + 39) = (Exec (Click 5000), Some submit_button, Some 5000)"
proof -
  have l: "length (setup_entries n) = n + 7" by (simp add: setup_entries_def)
  have a: "listing n TC003 ! (n + 7 + k) =
           fst (walk n (TC003_actions @
             [Single (Exec LastPage), expect_step (''text='' @ TC003_text) TC003_message,
              Single (Exec (Sleep 5))]) (None, Some 5000)) ! k" for k
    unfolding TC003_def listing_setup using l by (simp add: nth_append)
  have e: "n + 7 + 12 = n + 19" "n + 7 + 24 = n + 31" "n + 7 + 32 = n + 39" by simp_all
  have "listing n TC003 ! (n + 7 + 12) = (Exec (Click 5000), Some submit_button, Some 5000)"
    unfolding a by (simp add: action_defs planned_def)
  then show "listing n TC003 ! (n + 19) = (Exec (Click 5000), Some submit_button, Some 5000)"
    unfolding e .
  have "listing n TC003 ! (n + 7 + 24) = (Exec (Fill email_text), Some email_input, Some 5000)"
    unfolding a by (simp add: action_defs planned_def)
  then show "listing n TC003 ! (n + 31) = (Exec (Fill email_text), Some email_input, Some 5000)"
    unfolding e .
  have "listing n TC003 ! (n + 7 + 32) = (Exec (Click 5000), Some submit_button, Some 5000)"
    unfolding a by (simp add: action_defs planned_def)
  then show "listing n TC003 ! (n + 39) = (Exec (Click 5000), Some submit_button, Some 5000)"
    unfolding e .
qed

lemma try_block_in_run:
  assumes "list_all body_stmt body" "try_block scope env body = (r0, st0)"
    "run_test scope env body = (r, st)"
  shows "take (length (trace st0)) (trace st) = trace st0 \<and>
         list_all (\<lambda>ev. \<not> is_release (call ev)) (trace st0) \<and>
         list_all (\<lambda>ev. is_release (call ev)) (drop (length (trace st0)) (trace st)) \<and>
         body_calls (trace st) = map call (trace st0)"
proof -
  from run_test_parts [OF assms(1,3)]
  obtain r1 and st1 :: state and tds where p:
    "try_block scope env body = (r1, st1)"
    "consistent st1"
    "trace st = trace st1 @ tds"
    "list_all (\<lambda>ev. is_release (call ev) \<and> bound ev = None \<and> within ev) tds" by blast
  have e: "st1 = st0" using p(1) assms(2) by simp
  have n: "filter is_release (map call (trace st0)) = []"
    using p(2) e by (simp add: consistent_def closes_def)
  then have nr: "list_all (\<lambda>ev. \<not> is_release (call ev)) (trace st0)"
    by (simp add: filter_empty_conv list_all_iff)
  then have a: "filter (\<lambda>c. \<not> is_release c) (map call (trace st0)) = map call (trace st0)"
    by (simp add: list_all_iff)
  have d: "list_all (\<lambda>ev. is_release (call ev)) tds" using p(4) by (simp add: list_all_iff)
  then have b: "filter (\<lambda>c. \<not> is_release c) (map call tds) = []"
    by (simp add: list_all_iff filter_empty_conv)
  show ?thesis using p(3) e nr a b d by (simp add: body_calls_def)
qed

section \<open>Session release (C1)\<close>









section \<open>Suspension points (C2)\<close>

text \<open>
  \<open>context.new_page()\<close> is awaited with no timeout: it takes as long as the browser takes,
  whatever that is, and the run takes at least as long.
\<close>

lemma new_page_takes_any_time:
  "bound (trace (snd (run_test module_scope (env_waits d) TC001)) ! 4) = None \<and>
   took (trace (snd (run_test module_scope (env_waits d) TC001)) ! 4) = d \<and>
   d \<le> clock (snd (run_test module_scope (env_waits d) TC001))"
  by (simp add: script_defs run_rules env_waits_def cong: and_then_cong)

text \<open>
  C2. Claimed: every suspension point has an explicit timeout, so that the run terminates
  and no path holds an unbounded wait.

  What the scripts do: the awaited calls are of two sorts. A navigation, a load-state
  wait, an element wait (\<open>fill\<close>, \<open>click\<close>, \<open>wait_for\<close>), a pause and the terminal assertion have a
  timeout, written at the call or, for \<open>fill\<close>, inherited from
  \<open>context.set_default_timeout(5000)\<close>; it is at most 10 s and the call takes no longer. The
  other awaited calls, \<open>async_playwright().start()\<close>, \<open>launch\<close>, \<open>new_context\<close>, \<open>new_page\<close>,
  \<open>is_visible\<close>, \<open>context.close\<close>, \<open>browser.close\<close> and \<open>pw.stop\<close>, have none. A run makes at most one
  call for each statement, one more for each frame of the page, and the closing calls,
  and its duration is the time spent in the calls with a timeout, which is at most 10 s
  for each call, and the time spent in the calls without one, which the code does not
  limit. (Every call of the model is answered after some time; what the scripts do when a
  call without a timeout is never answered is not modelled.)
\<close>

theorem calls_with_timeout_bounded:
  assumes "body \<in> set scenarios" and "run_test scope env body = (r, st)"
  shows "(\<forall>ev \<in> set (trace st). timeout_kind (call ev) \<longrightarrow>
            (\<exists>t. bound ev = Some t \<and> took ev \<le> t \<and> t \<le> 10000)) \<and>
         (\<forall>ev \<in> set (trace st). suspends (call ev) \<and> \<not> timeout_kind (call ev) \<longrightarrow>
            bound ev = None) \<and>
         length (trace st) \<le> length body + frames env + 2 \<and>
         timed_time (trace st) \<le> 10000 * (length body + frames env + 2) \<and>
         clock st = timed_time (trace st) + untimed_time (trace st)"
proof -
  have ev: "\<exists>t. bound ev = Some t \<and> took ev \<le> t \<and> t \<le> 10000"
    if a: "ev \<in> set (trace st)" and b: "timeout_kind (call ev)" for ev
  proof -
    from run_event [OF assms a] release_not_timed b
    obtain g tg where g: "within ev" "entry_ok (g, tg, bound ev)" "call ev = call_of g"
      by blast
    then obtain t where "bound ev = Some t" "t \<le> 10000"
      using b by (auto simp: entry_ok_def split: option.splits)
    then show ?thesis using g(1) by (simp add: within_def)
  qed
  have un: "bound ev = None"
    if a: "ev \<in> set (trace st)" and b: "\<not> timeout_kind (call ev)" for ev
  proof -
    from run_event [OF assms a]
    have "bound ev = None \<or> (\<exists>g tg. entry_ok (g, tg, bound ev) \<and> call ev = call_of g)"
      by blast
    then show ?thesis using b by (auto simp: entry_ok_def)
  qed
  have len: "length (trace st) \<le> length body + frames env + 2" using run_length [OF assms] .
  have "timed_time (trace st) \<le> 10000 * length (trace st)"
    using ev by (intro timed_time_le) fastforce
  also have "\<dots> \<le> 10000 * (length body + frames env + 2)" using len by simp
  finally have tt: "timed_time (trace st) \<le> 10000 * (length body + frames env + 2)" .
  show ?thesis using ev un len tt run_clock [OF assms(2)] by blast
qed

text \<open>
  TC001 when every call takes 4 s: the first \<open>fill\<close> (line 58), event 13, runs under the
  session default; \<open>context.new_page()\<close> (line 29), event 4, runs under no timeout.
\<close>

theorem calls_with_timeout_bounded_witness:
  "TC001 \<in> set scenarios \<and>
   timeout_kind (call (trace (snd (run_test module_scope env_slow TC001)) ! 13)) \<and>
   (\<exists>t. bound (trace (snd (run_test module_scope env_slow TC001)) ! 13) = Some t \<and>
        took (trace (snd (run_test module_scope env_slow TC001)) ! 13) \<le> t \<and> t \<le> 10000) \<and>
   suspends (call (trace (snd (run_test module_scope env_slow TC001)) ! 4)) \<and>
   \<not> timeout_kind (call (trace (snd (run_test module_scope env_slow TC001)) ! 4)) \<and>
   bound (trace (snd (run_test module_scope env_slow TC001)) ! 4) = None \<and>
   length (trace (snd (run_test module_scope env_slow TC001))) \<le>
     length TC001 + frames env_slow + 2 \<and>
   timed_time (trace (snd (run_test module_scope env_slow TC001))) \<le>
     10000 * (length TC001 + frames env_slow + 2) \<and>
   clock (snd (run_test module_scope env_slow TC001)) =
     timed_time (trace (snd (run_test module_scope env_slow TC001))) +
     untimed_time (trace (snd (run_test module_scope env_slow TC001)))"
proof -
  have m: "TC001 \<in> set scenarios" by (simp add: scenarios_def)
  have l: "length (trace (snd (run_test module_scope env_slow TC001))) = 35"
    by (simp add: script_defs run_rules env_slow_def cong: and_then_cong)
  have c: "call (trace (snd (run_test module_scope env_slow TC001)) ! 13) = Fill email_text"
    by (simp add: script_defs run_rules env_slow_def cong: and_then_cong)
  have d: "call (trace (snd (run_test module_scope env_slow TC001)) ! 4) = NewPage"
    by (simp add: script_defs run_rules env_slow_def cong: and_then_cong)
  have e: "trace (snd (run_test module_scope env_slow TC001)) ! 13 \<in>
           set (trace (snd (run_test module_scope env_slow TC001)))"
    and f: "trace (snd (run_test module_scope env_slow TC001)) ! 4 \<in>
           set (trace (snd (run_test module_scope env_slow TC001)))"
    using l by simp_all
  have s: "timeout_kind (call (trace (snd (run_test module_scope env_slow TC001)) ! 13))"
    using c by simp
  have u: "suspends (call (trace (snd (run_test module_scope env_slow TC001)) ! 4))"
    "\<not> timeout_kind (call (trace (snd (run_test module_scope env_slow TC001)) ! 4))"
    using d by simp_all
  show ?thesis
    using calls_with_timeout_bounded [OF m surjective_pairing, of module_scope env_slow]
      m e f s u by blast
qed

text \<open>
  TC001 when the browser takes an hour to open the page: \<open>await context.new_page()\<close> (line
  29), event 4, is a suspension point with no timeout; the script waits the hour, the
  call returns, and the run has lasted more than an hour.
\<close>

theorem new_page_has_no_timeout:
  "call (trace (snd (run_test module_scope (env_waits 3600000) TC001)) ! 4) = NewPage \<and>
   suspends (call (trace (snd (run_test module_scope (env_waits 3600000) TC001)) ! 4)) \<and>
   bound (trace (snd (run_test module_scope (env_waits 3600000) TC001)) ! 4) = None \<and>
   result (trace (snd (run_test module_scope (env_waits 3600000) TC001)) ! 4) = None \<and>
   took (trace (snd (run_test module_scope (env_waits 3600000) TC001)) ! 4) = 3600000 \<and>
   3600000 < clock (snd (run_test module_scope (env_waits 3600000) TC001))"
  by (simp add: script_defs run_rules env_waits_def cong: and_then_cong)

section \<open>Navigation (C4)\<close>

text \<open>
  C4. Every navigation a run issues is \<open>page.goto(url, wait_until="commit", timeout=10000)\<close>:
  it waits for the commit point only, never for \<open>load\<close>, under the timeout written at the
  call, and it is over within that timeout.
\<close>

theorem navigation_waits_for_commit:
  assumes "body \<in> set scenarios" and "run_test scope env body = (r, st)"
    and "ev \<in> set (trace st)" and "call ev = Goto url w t"
  shows "w = ''commit'' \<and> t = 10000 \<and> bound ev = Some t \<and> took ev \<le> t"
proof -
  have "\<not> is_release (call ev)" using assms(4) by (simp add: is_release_def)
  with run_event [OF assms(1,2,3)]
  obtain g tg where g: "within ev" "entry_ok (g, tg, bound ev)" "call ev = call_of g"
    by blast
  have cg: "call_of g = Goto url w t" using assms(4) g(3) by simp
  have "w = ''commit'' \<and> t = 10000 \<and> bound ev = Some t"
    using g(2) cg by (simp add: entry_ok_def)
  then show ?thesis using g(1) by (simp add: within_def)
qed


text \<open>TC001, line 32: the first navigation, event 5.\<close>

theorem navigation_waits_for_commit_witness:
  "TC001 \<in> set scenarios \<and>
   call (trace (snd (run_test module_scope env_prompt TC001)) ! 5) =
     Goto root_url ''commit'' 10000 \<and>
   bound (trace (snd (run_test module_scope env_prompt TC001)) ! 5) = Some 10000 \<and>
   took (trace (snd (run_test module_scope env_prompt TC001)) ! 5) \<le> 10000"
proof -
  have m: "TC001 \<in> set scenarios" by (simp add: scenarios_def)
  have l: "length (trace (snd (run_test module_scope env_prompt TC001))) = 35"
    by (simp add: script_defs run_rules env_prompt_def cong: and_then_cong)
  have c: "call (trace (snd (run_test module_scope env_prompt TC001)) ! 5) =
           Goto root_url ''commit'' 10000"
    by (simp add: script_defs run_rules env_prompt_def cong: and_then_cong)
  have e: "trace (snd (run_test module_scope env_prompt TC001)) ! 5 \<in>
           set (trace (snd (run_test module_scope env_prompt TC001)))"
    using l by simp
  show ?thesis
    using navigation_waits_for_commit [OF m surjective_pairing e c] m c by simp
qed

section \<open>Interactive steps (C6)\<close>

text \<open>
  C6. Claimed: target resolution and operation of a \<open>fill\<close> or \<open>click\<close> share one budget, the
  action's timeout, and no part of the action, a delay before the operation included,
  falls outside it.

  What the scripts do: the operation, which resolves its locator itself, runs under a
  timeout of 5 s (written at \<open>click\<close>, the session default at \<open>fill\<close>) and is over within it.
  The generator writes \<open>await page.wait_for_timeout(3000)\<close> before every operation: that
  pause of up to 3 s is a call of its own, outside the operation's timeout, so a step
  takes up to 8 s.
\<close>

theorem interactive_call_follows_pause:
  assumes "body \<in> set scenarios" and "run_test scope env body = (r, st)"
    and "i < length (trace st)" and "interactive (call (trace st ! i))"
  shows "0 < i \<and> call (trace st ! (i - 1)) = WaitForTimeout 3000 \<and>
         took (trace st ! (i - 1)) \<le> 3000 \<and>
         bound (trace st ! i) = Some 5000 \<and> took (trace st ! i) \<le> 5000"
proof -
  from body_calls_run [OF assms(1,2)] obtain cs ds where p:
    "map call (trace st) = cs @ ds" "prefix cs (script_calls (frames env) body)"
    "list_all is_release ds" by blast
  have "paused_from None cs" using paused_prefix [OF p(2) scenario_paused [OF assms(1)]] .
  moreover have "list_all (\<lambda>c. \<not> interactive c) ds"
    using p(3) release_not_interactive by (auto simp: list_all_iff)
  ultimately have "paused_from None (map call (trace st))"
    using paused_append_plain p(1) by simp
  from paused_nth [OF this, of i] assms(3,4)
  have i: "0 < i" and c: "call (trace st ! (i - 1)) = WaitForTimeout 3000"
    by (auto split: if_splits)
  have m1: "trace st ! (i - 1) \<in> set (trace st)" and m2: "trace st ! i \<in> set (trace st)"
    using assms(3) by simp_all
  have "\<not> is_release (call (trace st ! (i - 1)))" using c by (simp add: is_release_def)
  with run_event [OF assms(1,2) m1]
  obtain g tg where g: "within (trace st ! (i - 1))"
    "entry_ok (g, tg, bound (trace st ! (i - 1)))" "call (trace st ! (i - 1)) = call_of g"
    by blast
  have "call_of g = WaitForTimeout 3000" using c g(3) by simp
  then have "bound (trace st ! (i - 1)) = Some 3000" using g(2) by (simp add: entry_ok_def)
  then have t1: "took (trace st ! (i - 1)) \<le> 3000" using g(1) by (simp add: within_def)
  have "\<not> is_release (call (trace st ! i))"
    using assms(4) release_not_interactive by blast
  with run_event [OF assms(1,2) m2]
  obtain g' tg' where g': "within (trace st ! i)"
    "entry_ok (g', tg', bound (trace st ! i))" "call (trace st ! i) = call_of g'"
    by blast
  have "bound (trace st ! i) = Some 5000" using g'(2,3) assms(4) by (simp add: entry_ok_def)
  then show ?thesis using i c t1 g'(1) by (simp add: within_def)
qed

text \<open>TC001, line 58, when every call takes 4 s.\<close>

theorem interactive_call_follows_pause_witness:
  "TC001 \<in> set scenarios \<and>
   call (trace (snd (run_test module_scope env_slow TC001)) ! 13) = Fill email_text \<and>
   call (trace (snd (run_test module_scope env_slow TC001)) ! 12) = WaitForTimeout 3000 \<and>
   took (trace (snd (run_test module_scope env_slow TC001)) ! 12) \<le> 3000 \<and>
   bound (trace (snd (run_test module_scope env_slow TC001)) ! 13) = Some 5000 \<and>
   took (trace (snd (run_test module_scope env_slow TC001)) ! 13) \<le> 5000"
proof -
  have m: "TC001 \<in> set scenarios" by (simp add: scenarios_def)
  have l: "13 < length (trace (snd (run_test module_scope env_slow TC001)))"
    by (simp add: script_defs run_rules env_slow_def cong: and_then_cong)
  have c: "call (trace (snd (run_test module_scope env_slow TC001)) ! 13) = Fill email_text"
    by (simp add: script_defs run_rules env_slow_def cong: and_then_cong)
  have i: "interactive (call (trace (snd (run_test module_scope env_slow TC001)) ! 13))"
    using c by simp
  show ?thesis
    using interactive_call_follows_pause [OF m surjective_pairing l i] m c by simp
qed

text \<open>
  TC001, line 58, when every call takes 4 s: the pause takes 3 s, the \<open>fill\<close> returns after
  4 s, under its timeout of 5 s; the step has taken 7 s and nothing has timed out.
\<close>

theorem pause_outside_fill_timeout:
  "call (trace (snd (run_test module_scope env_slow TC001)) ! 12) = WaitForTimeout 3000 \<and>
   took (trace (snd (run_test module_scope env_slow TC001)) ! 12) = 3000 \<and>
   call (trace (snd (run_test module_scope env_slow TC001)) ! 13) = Fill email_text \<and>
   bound (trace (snd (run_test module_scope env_slow TC001)) ! 13) = Some 5000 \<and>
   took (trace (snd (run_test module_scope env_slow TC001)) ! 13) = 4000 \<and>
   result (trace (snd (run_test module_scope env_slow TC001)) ! 13) = None \<and>
   \<not> within_budget (trace (snd (run_test module_scope env_slow TC001)))"
  by (simp add: script_defs run_rules env_slow_def cong: and_then_cong)


section \<open>Recovery steps (C3)\<close>

lemma scripted_fills_setup:
  "scripted_fills txt n (session_setup @ rest) =
     length (filter (\<lambda>c. c = Fill txt)
       (map (\<lambda>x. call_of (fst x)) (fst (walk n rest (None, Some 5000)))))"
  by (simp add: scripted_fills_def script_calls_setup setup_entries_def)

lemma texts_differ: "email_text \<noteq> password_text" "password_text \<noteq> email_text"
  by (simp_all add: email_text_def password_text_def)

lemma not_submit_button:
  "email_input \<noteq> submit_button" "password_input \<noteq> submit_button"
  "email_input_1 \<noteq> submit_button" "password_input_1 \<noteq> submit_button"
  "entrar_button_1 \<noteq> submit_button" "submit_button_1 \<noteq> submit_button"
  "signup_button \<noteq> submit_button" "spinner_svg \<noteq> submit_button"
  by (simp_all add: submit_button_def email_input_def password_input_def email_input_1_def
        password_input_1_def entrar_button_1_def submit_button_1_def signup_button_def
        spinner_svg_def)

lemma listed_fills:
  "scripted_fills email_text n TC003 = 17" "scripted_fills email_text n TC008 = 3"
  unfolding TC003_def TC008_def scripted_fills_setup
  by (simp_all add: action_defs planned_def texts_differ)

text \<open>
  C3. Claimed: after a recovery tactic only the remaining actions are run again, never
  the whole scenario, and a login already submitted is not submitted again from scratch.

  What the scripts do: they have no recovery controller and no resumption point. The \<open>try\<close>
  body of a run makes the calls the script lists, once each and in the order written: it
  starts with the first, goes on after a call that returned or whose exception was caught
  and passed, and stops at the first exception that surfaces, which is the one the last
  call made raised, or after the last call listed. So no step is run again and the scenario
  never starts over. The \<open>finally\<close> block adds closing calls only. The recovery steps are
  written into the listing itself, and they do fill in and submit the login form again:
  TC003 lists the filling in of the e-mail address 17 times, TC008 three times. TC003
  lists a click on the submit button of the login form (line 65), then the filling in of
  the e-mail address of that form (line 82) and a click on the same button (line 92).
  Every run of TC008 that gets to line 100 has clicked the submit button of the login form
  (line 68), the click has returned, and it has filled in the e-mail address of that form
  again (line 90) before it clicks the same button again (line 100).
\<close>

theorem run_follows_script_once:
  assumes "body \<in> set scenarios"
    and "try_block scope env body = (r0, st0)"
    and "run_test scope env body = (r, st)"
  shows "conforms r0 (trace st0) (listing (frames env) body) \<and>
         prefix (map call (trace st0)) (script_calls (frames env) body) \<and>
         (r0 = None \<longrightarrow> map call (trace st0) = script_calls (frames env) body) \<and>
         (r0 \<noteq> None \<longrightarrow> trace st0 \<noteq> [] \<and>
            (\<exists>e. result (last (trace st0)) = Some e \<and>
                 surfaces (fst (listing (frames env) body ! (length (trace st0) - 1))) e = r0)) \<and>
         (\<forall>i. Suc i < length (trace st0) \<longrightarrow>
            (case result (trace st0 ! i) of
               None \<Rightarrow> True
             | Some e \<Rightarrow> surfaces (fst (listing (frames env) body ! i)) e = None)) \<and>
         take (length (trace st0)) (trace st) = trace st0 \<and>
         list_all (\<lambda>ev. \<not> is_release (call ev)) (trace st0) \<and>
         list_all (\<lambda>ev. is_release (call ev)) (drop (length (trace st0)) (trace st)) \<and>
         body_calls (trace st) = map call (trace st0) \<and>
         scripted_fills email_text (frames env) TC003 = 17 \<and>
         scripted_fills email_text (frames env) TC008 = 3 \<and>
         listing (frames env) TC003 ! (frames env + 19) =
           (Exec (Click 5000), Some submit_button, Some 5000) \<and>
         listing (frames env) TC003 ! (frames env + 31) =
           (Exec (Fill email_text), Some email_input, Some 5000) \<and>
         listing (frames env) TC003 ! (frames env + 39) =
           (Exec (Click 5000), Some submit_button, Some 5000) \<and>
         (body = TC008 \<and> frames env + 44 < length (trace st0) \<longrightarrow>
            call (trace st0 ! (frames env + 20)) = Click 5000 \<and>
            target (trace st0 ! (frames env + 20)) = Some submit_button \<and>
            result (trace st0 ! (frames env + 20)) = None \<and>
            call (trace st0 ! (frames env + 36)) = Fill email_text \<and>
            target (trace st0 ! (frames env + 36)) = Some email_input \<and>
            result (trace st0 ! (frames env + 36)) = None \<and>
            call (trace st0 ! (frames env + 44)) = Click 5000 \<and>
            target (trace st0 ! (frames env + 44)) = Some submit_button)"
proof -
  have bs: "list_all body_stmt body" using scenario_bodies [OF assms(1)] .
  from run_test_parts [OF bs assms(3)]
  obtain r1 and st1 :: state where p:
    "try_block scope env body = (r1, st1)"
    "conforms r1 (trace st1) (listing (frames env) body)" by blast
  have c: "conforms r0 (trace st0) (listing (frames env) body)"
    using p assms(2) by simp
  have pre: "prefix (map call (trace st0)) (script_calls (frames env) body)"
    using conforms_calls [OF c] by (simp add: script_calls_def)
  have full: "map call (trace st0) = script_calls (frames env) body" if "r0 = None"
    using conforms_all_calls c that by (simp add: script_calls_def)
  have stop: "trace st0 \<noteq> [] \<and>
      (\<exists>e. result (last (trace st0)) = Some e \<and>
           surfaces (fst (listing (frames env) body ! (length (trace st0) - 1))) e = r0)"
    if "r0 \<noteq> None"
  proof -
    from that obtain e' where e': "r0 = Some e'" by auto
    from conforms_raised_last [of e' "trace st0" "listing (frames env) body"] c e'
    show ?thesis by simp
  qed
  have on: "case result (trace st0 ! i) of None \<Rightarrow> True
            | Some e \<Rightarrow> surfaces (fst (listing (frames env) body ! i)) e = None"
    if "Suc i < length (trace st0)" for i
    using conforms_goes_on [OF c that] .
  have parts: "take (length (trace st0)) (trace st) = trace st0 \<and>
         list_all (\<lambda>ev. \<not> is_release (call ev)) (trace st0) \<and>
         list_all (\<lambda>ev. is_release (call ev)) (drop (length (trace st0)) (trace st)) \<and>
         body_calls (trace st) = map call (trace st0)"
    using try_block_in_run [OF bs assms(2,3)] .
  have again:
    "call (trace st0 ! (frames env + 20)) = Click 5000 \<and>
     target (trace st0 ! (frames env + 20)) = Some submit_button \<and>
     result (trace st0 ! (frames env + 20)) = None \<and>
     call (trace st0 ! (frames env + 36)) = Fill email_text \<and>
     target (trace st0 ! (frames env + 36)) = Some email_input \<and>
     result (trace st0 ! (frames env + 36)) = None \<and>
     call (trace st0 ! (frames env + 44)) = Click 5000 \<and>
     target (trace st0 ! (frames env + 44)) = Some submit_button"
    if b: "body = TC008" and l: "frames env + 44 < length (trace st0)"
  proof -
    have c8: "conforms r0 (trace st0) (listing (frames env) TC008)" using c b by simp
    have i: "frames env + 20 < length (trace st0)" "frames env + 36 < length (trace st0)"
      "Suc (frames env + 20) < length (trace st0)" "Suc (frames env + 36) < length (trace st0)"
      using l by simp_all
    have r20: "result (trace st0 ! (frames env + 20)) = None"
      using conforms_goes_on [OF c8 i(3)] TC008_listing(1) [of "frames env"]
      by (cases "result (trace st0 ! (frames env + 20))") simp_all
    have r36: "result (trace st0 ! (frames env + 36)) = None"
      using conforms_goes_on [OF c8 i(4)] TC008_listing(2) [of "frames env"]
      by (cases "result (trace st0 ! (frames env + 36))") simp_all
    show ?thesis
      using conforms_nth [OF c8 i(1)] conforms_nth_target [OF c8 i(1)]
        conforms_nth [OF c8 i(2)] conforms_nth_target [OF c8 i(2)]
        conforms_nth [OF c8 l] conforms_nth_target [OF c8 l]
        TC008_listing [of "frames env"] r20 r36
      by simp
  qed
  show ?thesis
    using c pre full stop on parts listed_fills [of "frames env"]
      TC003_listing [of "frames env"] again by blast
qed

text \<open>
  TC008 when every call returns: the \<open>try\<close> body makes 52 calls, line 100 is event 45, and
  the body ends at the terminal assertion, where the name \<open>expect\<close> is not bound.
\<close>

theorem run_follows_script_once_witness:
  "TC008 \<in> set scenarios \<and>
   fst (try_block module_scope env_prompt TC008) = Some (NameError ''expect'') \<and>
   length (trace (snd (try_block module_scope env_prompt TC008))) = 52 \<and>
   frames env_prompt + 44 < length (trace (snd (try_block module_scope env_prompt TC008))) \<and>
   conforms (fst (try_block module_scope env_prompt TC008))
     (trace (snd (try_block module_scope env_prompt TC008))) (listing (frames env_prompt) TC008) \<and>
   call (trace (snd (try_block module_scope env_prompt TC008)) ! 21) = Click 5000 \<and>
   target (trace (snd (try_block module_scope env_prompt TC008)) ! 21) = Some submit_button \<and>
   result (trace (snd (try_block module_scope env_prompt TC008)) ! 21) = None \<and>
   call (trace (snd (try_block module_scope env_prompt TC008)) ! 37) = Fill email_text \<and>
   target (trace (snd (try_block module_scope env_prompt TC008)) ! 37) = Some email_input \<and>
   result (trace (snd (try_block module_scope env_prompt TC008)) ! 37) = None \<and>
   call (trace (snd (try_block module_scope env_prompt TC008)) ! 45) = Click 5000 \<and>
   target (trace (snd (try_block module_scope env_prompt TC008)) ! 45) = Some submit_button \<and>
   result (last (trace (snd (try_block module_scope env_prompt TC008)))) =
     Some (NameError ''expect'') \<and>
   body_calls (trace (snd (run_test module_scope env_prompt TC008))) =
     map call (trace (snd (try_block module_scope env_prompt TC008)))"
proof -
  have m: "TC008 \<in> set scenarios" by (simp add: scenarios_def)
  have f: "frames env_prompt = 1" by (simp add: env_prompt_def)
  have r: "fst (try_block module_scope env_prompt TC008) = Some (NameError ''expect'')"
    by (simp add: script_defs run_rules env_prompt_def cong: and_then_cong)
  have l: "length (trace (snd (try_block module_scope env_prompt TC008))) = 52"
    by (simp add: script_defs run_rules env_prompt_def cong: and_then_cong)
  have e: "result (last (trace (snd (try_block module_scope env_prompt TC008)))) =
           Some (NameError ''expect'')"
    by (simp add: script_defs run_rules env_prompt_def cong: and_then_cong)
  have h: "frames env_prompt + 44 < length (trace (snd (try_block module_scope env_prompt TC008)))"
    using f l by simp
  have n: "frames env_prompt + 20 = 21" "frames env_prompt + 36 = 37" "frames env_prompt + 44 = 45"
    using f by simp_all
  note t = run_follows_script_once [where body = TC008 and scope = module_scope and env = env_prompt,
      OF m surjective_pairing surjective_pairing]
  from t have c: "conforms (fst (try_block module_scope env_prompt TC008))
     (trace (snd (try_block module_scope env_prompt TC008))) (listing (frames env_prompt) TC008)"
    by blast
  from t have b: "body_calls (trace (snd (run_test module_scope env_prompt TC008))) =
     map call (trace (snd (try_block module_scope env_prompt TC008)))" by blast
  from t h have a:
    "call (trace (snd (try_block module_scope env_prompt TC008)) ! (frames env_prompt + 20)) = Click 5000 \<and>
     target (trace (snd (try_block module_scope env_prompt TC008)) ! (frames env_prompt + 20)) = Some submit_button \<and>
     result (trace (snd (try_block module_scope env_prompt TC008)) ! (frames env_prompt + 20)) = None \<and>
     call (trace (snd (try_block module_scope env_prompt TC008)) ! (frames env_prompt + 36)) = Fill email_text \<and>
     target (trace (snd (try_block module_scope env_prompt TC008)) ! (frames env_prompt + 36)) = Some email_input \<and>
     result (trace (snd (try_block module_scope env_prompt TC008)) ! (frames env_prompt + 36)) = None \<and>
     call (trace (snd (try_block module_scope env_prompt TC008)) ! (frames env_prompt + 44)) = Click 5000 \<and>
     target (trace (snd (try_block module_scope env_prompt TC008)) ! (frames env_prompt + 44)) = Some submit_button"
    by blast
  show ?thesis
    using m r l h c b e a unfolding n by blast
qed

text \<open>
  TC008 when every call returns. The click on the submit button of the login form (line
  68, event 21) returns; the script then fills in the e-mail address again (line 90,
  event 37) and clicks the same button again (line 100, event 45). In this one run the
  address is filled in three times and the button clicked twice.
\<close>

theorem login_submitted_again_from_scratch:
  "call (trace (snd (run_test module_scope env_prompt TC008)) ! 21) = Click 5000 \<and>
   target (trace (snd (run_test module_scope env_prompt TC008)) ! 21) = Some submit_button \<and>
   result (trace (snd (run_test module_scope env_prompt TC008)) ! 21) = None \<and>
   call (trace (snd (run_test module_scope env_prompt TC008)) ! 37) = Fill email_text \<and>
   target (trace (snd (run_test module_scope env_prompt TC008)) ! 37) = Some email_input \<and>
   call (trace (snd (run_test module_scope env_prompt TC008)) ! 45) = Click 5000 \<and>
   target (trace (snd (run_test module_scope env_prompt TC008)) ! 45) = Some submit_button \<and>
   result (trace (snd (run_test module_scope env_prompt TC008)) ! 45) = None \<and>
   fills email_text (trace (snd (run_test module_scope env_prompt TC008))) = 3 \<and>
   clicks submit_button (trace (snd (run_test module_scope env_prompt TC008))) = 2"
  by (simp add: script_defs run_rules env_prompt_def fills_def clicks_def texts_differ
        not_submit_button cong: and_then_cong)

section \<open>Load-state waits (C5)\<close>

text \<open>
  C5. In every run of a scenario, a \<open>wait_for_load_state\<close> that times out does not end the
  \<open>try\<close> block: the \<open>except async_api.Error: pass\<close> around it catches the timeout, and the run
  goes on with the next call the script lists.
\<close>

theorem load_state_timeout_is_swallowed:
  assumes "body \<in> set scenarios" and "try_block scope env body = (r, st)"
    and "i < length (trace st)" and "load_wait (call (trace st ! i))"
    and "result (trace st ! i) = Some PlaywrightTimeoutError"
  shows "Suc i < length (trace st) \<and>
         call (trace st ! Suc i) = script_calls (frames env) body ! Suc i"
proof -
  have pl: "list_all plain body"
    using scenario_bodies [OF assms(1)] by (simp add: list_all_iff body_stmt_def)
  have ex: "exec_stmts scope env body initial = (r, st)" using assms(2) by (simp add: try_block_def)
  from stmts_conforms [OF pl ex] obtain evs where evs:
    "trace st = trace initial @ evs"
    "conforms r evs (fst (walk (frames env) body (in_force initial)))" by blast
  have c: "conforms r (trace st) (listing (frames env) body)"
    using evs by (simp add: initial_def in_force_def listing_def)
  let ?ps = "listing (frames env) body"
  from conforms_nth [OF c assms(3)] have n:
    "i < length ?ps" "call (trace st ! i) = call_of (fst (?ps ! i))" by simp_all
  have "?ps ! i \<in> set ?ps" using n(1) by simp
  then have s: "surfaces (fst (?ps ! i)) PlaywrightTimeoutError = None"
    using listing_load_waits [OF assms(1), of "frames env"] assms(4) n(2)
    by (auto simp: list_all_iff)
  have "i \<noteq> length ?ps - 1"
  proof
    assume "i = length ?ps - 1"
    moreover have "?ps \<noteq> []" using n(1) by auto
    ultimately have "?ps ! i = last ?ps" by (simp add: last_conv_nth)
    then show False using listing_last [OF assms(1), of "frames env"] assms(4) n(2) by simp
  qed
  then have l: "Suc i < length ?ps" using n(1) by simp
  have m: "Suc i < length (trace st)" using conforms_next [OF c assms(3,5) s l] .
  from conforms_nth [OF c m] have "call (trace st ! Suc i) = call_of (fst (?ps ! Suc i))"
    by simp
  then show ?thesis using m l by (simp add: script_calls_def)
qed

text \<open>
  TC001 when every call takes 4 s: the wait of line 36 (event 6) times out after 3 s, and
  the run goes on with the wait for the first frame (line 43).
\<close>

theorem load_state_timeout_is_swallowed_witness:
  "TC001 \<in> set scenarios \<and>
   call (trace (snd (try_block module_scope env_slow TC001)) ! 6) =
     WaitForLoadState ''domcontentloaded'' 3000 \<and>
   result (trace (snd (try_block module_scope env_slow TC001)) ! 6) = Some PlaywrightTimeoutError \<and>
   7 < length (trace (snd (try_block module_scope env_slow TC001))) \<and>
   call (trace (snd (try_block module_scope env_slow TC001)) ! 7) =
     script_calls (frames env_slow) TC001 ! 7"
proof -
  have m: "TC001 \<in> set scenarios" by (simp add: scenarios_def)
  have l: "6 < length (trace (snd (try_block module_scope env_slow TC001)))"
    by (simp add: script_defs run_rules env_slow_def cong: and_then_cong)
  have c: "call (trace (snd (try_block module_scope env_slow TC001)) ! 6) =
           WaitForLoadState ''domcontentloaded'' 3000"
    by (simp add: script_defs run_rules env_slow_def cong: and_then_cong)
  have w: "load_wait (call (trace (snd (try_block module_scope env_slow TC001)) ! 6))"
    using c by simp
  have r: "result (trace (snd (try_block module_scope env_slow TC001)) ! 6) =
           Some PlaywrightTimeoutError"
    by (simp add: script_defs run_rules env_slow_def cong: and_then_cong)
  show ?thesis
    using load_state_timeout_is_swallowed [OF m surjective_pairing l w r] m c r by simp
qed


section \<open>The undefined name \<open>expect\<close> (C9)\<close>

text \<open>
  C9. TC001, TC003 and TC008 apply \<open>expect\<close> in their terminal assertion, a name the module
  neither imports nor defines. In every run of their statements: the call that applies
  \<open>expect\<close> raises \<open>NameError\<close>, which \<open>except AssertionError\<close> does not catch, so it is the last
  call of the \<open>try\<close> block and \<open>NameError\<close> is the block's outcome; the block never ends
  normally and never with an \<open>AssertionError\<close>, the authored message included; and so
  \<open>run_test\<close> never returns normally and never raises an \<open>AssertionError\<close>.
  (TC003 is taken as its statements, without the two fence lines that keep the file from
  compiling.)
\<close>

theorem expect_raises_name_error:
  assumes "body \<in> set expect_scenarios" and "try_block module_scope env body = (r, st)"
  shows "''expect'' \<notin> set module_scope \<and> r \<noteq> None \<and> (\<forall>m. r \<noteq> Some (AssertionError m)) \<and>
         (\<forall>i < length (trace st). is_expect (call (trace st ! i)) \<longrightarrow>
            result (trace st ! i) = Some (NameError ''expect'') \<and>
            r = Some (NameError ''expect'') \<and> Suc i = length (trace st)) \<and>
         fst (run_test module_scope env body) \<noteq> None \<and>
         (\<forall>m. fst (run_test module_scope env body) \<noteq> Some (AssertionError m))"
proof -
  have sc: "body \<in> set scenarios" using expect_scenarios_sub [OF assms(1)] .
  have pl: "list_all plain body"
    using scenario_bodies [OF sc] by (simp add: list_all_iff body_stmt_def)
  have ex: "exec_stmts module_scope env body initial = (r, st)"
    using assms(2) by (simp add: try_block_def)
  from stmts_conforms [OF pl ex] obtain evs where evs:
    "trace st = trace initial @ evs" "list_all (explained module_scope) evs"
    "conforms r evs (fst (walk (frames env) body (in_force initial)))" by blast
  let ?ps = "listing (frames env) body"
  have c: "conforms r (trace st) ?ps" and x: "list_all (explained module_scope) (trace st)"
    using evs by (simp_all add: initial_def in_force_def listing_def)
  have shape: "harmless (fst (?ps ! i)) \<or> expect_step_shape (fst (?ps ! i))"
    if "i < length ?ps" for i
    using listing_shapes [OF assms(1), of "frames env"] that by (simp add: list_all_length)
  have stop: "result (trace st ! i) = Some (NameError ''expect'') \<and>
              r = Some (NameError ''expect'') \<and> Suc i = length (trace st)"
    if i: "i < length (trace st)" and e: "expect_step_shape (fst (?ps ! i))" for i
  proof -
    from conforms_nth [OF c i] have n: "call (trace st ! i) = call_of (fst (?ps ! i))" by simp
    have xi: "explained module_scope (trace st ! i)" using x i by (simp add: list_all_length)
    have "result (trace st ! i) \<noteq> None"
      using xi expect_shape_raises(1) [OF e] n by (auto simp: explained_def split: option.splits)
    then obtain e0 where e0: "result (trace st ! i) = Some e0" by auto
    then have "may_raise module_scope (call_of (fst (?ps ! i))) e0"
      using xi n by (simp add: explained_def)
    from expect_shape_raises(2) [OF e this]
    have n0: "e0 = NameError ''expect''"
      and s0: "surfaces (fst (?ps ! i)) e0 = Some (NameError ''expect'')" by blast+
    from conforms_stops [OF c i e0 s0] e0 n0 show ?thesis by simp
  qed
  have r1: "r \<noteq> None"
  proof
    assume none: "r = None"
    then have len: "length (trace st) = length ?ps" using c conforms_complete by simp
    from listing_has_expect [OF assms(1), of "frames env"]
    obtain k where k: "k < length ?ps" "expect_step_shape (fst (?ps ! k))"
      by (auto simp: list_ex_iff in_set_conv_nth)
    from stop [of k] k len none show False by simp
  qed
  have r2: "r \<noteq> Some (AssertionError m)" for m
  proof
    assume a: "r = Some (AssertionError m)"
    from conforms_raised_last [of "AssertionError m" "trace st" ?ps] c a
    obtain e where e: "trace st \<noteq> []" "result (last (trace st)) = Some e"
      "surfaces (fst (?ps ! (length (trace st) - 1))) e = Some (AssertionError m)" by auto
    let ?i = "length (trace st) - 1"
    have i: "?i < length (trace st)" using e(1) by simp
    have la: "last (trace st) = trace st ! ?i" using e(1) by (simp add: last_conv_nth)
    from conforms_nth [OF c i] have n: "?i < length ?ps"
      "call (trace st ! ?i) = call_of (fst (?ps ! ?i))" by simp_all
    have "explained module_scope (trace st ! ?i)" using x i by (simp add: list_all_length)
    then have m: "may_raise module_scope (call_of (fst (?ps ! ?i))) e"
      using e(2) la n(2) by (simp add: explained_def)
    from shape [OF n(1)] show False
    proof
      assume "harmless (fst (?ps ! ?i))"
      from harmless_no_assertion [OF this m] e(3) show False by simp
    next
      assume "expect_step_shape (fst (?ps ! ?i))"
      from expect_shape_raises(2) [OF this m] e(3) show False by auto
    qed
  qed
  have r3: "result (trace st ! i) = Some (NameError ''expect'') \<and>
            r = Some (NameError ''expect'') \<and> Suc i = length (trace st)"
    if i: "i < length (trace st)" and e: "is_expect (call (trace st ! i))" for i
  proof -
    from conforms_nth [OF c i] have n: "i < length ?ps"
      "call (trace st ! i) = call_of (fst (?ps ! i))" by simp_all
    have "expect_step_shape (fst (?ps ! i))"
      using shape [OF n(1)] harmless_not_expect e n(2) by auto
    from stop [OF i this] show ?thesis .
  qed
  obtain r2 st2 where t: "exec_stmts module_scope env teardown st = (r2, st2)" by fastforce
  have f: "fst (run_test module_scope env body) = (case r2 of None \<Rightarrow> r | Some e \<Rightarrow> Some e)"
    using assms(2) t by (simp add: run_test_def finally_block_def split: option.splits)
  have "e \<in> {PlaywrightError, PlaywrightTimeoutError, DriverFailure}" if "r2 = Some e" for e
    using teardown_exn [of module_scope env st e st2] t that by simp
  then have r4: "fst (run_test module_scope env body) \<noteq> None \<and>
                 (\<forall>m. fst (run_test module_scope env body) \<noteq> Some (AssertionError m))"
    using f r1 r2 by (cases r2) auto
  show ?thesis using expect_unbound r1 r2 r3 r4 by blast
qed

text \<open>TC001 when every call returns: the assertion of line 91 is event 31, the last.\<close>

theorem expect_raises_name_error_witness:
  "TC001 \<in> set expect_scenarios \<and>
   call (trace (snd (try_block module_scope env_prompt TC001)) ! 31) =
     ExpectVisible ''expect'' (''text='' @ TC001_text) 3000 \<and>
   result (trace (snd (try_block module_scope env_prompt TC001)) ! 31) =
     Some (NameError ''expect'') \<and>
   fst (try_block module_scope env_prompt TC001) = Some (NameError ''expect'') \<and>
   length (trace (snd (try_block module_scope env_prompt TC001))) = 32"
proof -
  have m: "TC001 \<in> set expect_scenarios" by (simp add: expect_scenarios_def)
  have l: "31 < length (trace (snd (try_block module_scope env_prompt TC001)))"
    by (simp add: script_defs run_rules env_prompt_def cong: and_then_cong)
  have c: "call (trace (snd (try_block module_scope env_prompt TC001)) ! 31) =
           ExpectVisible ''expect'' (''text='' @ TC001_text) 3000"
    by (simp add: script_defs run_rules env_prompt_def cong: and_then_cong)
  have e: "is_expect (call (trace (snd (try_block module_scope env_prompt TC001)) ! 31))"
    using c by simp
  have "result (trace (snd (try_block module_scope env_prompt TC001)) ! 31) =
          Some (NameError ''expect'') \<and>
        fst (try_block module_scope env_prompt TC001) = Some (NameError ''expect'') \<and>
        Suc 31 = length (trace (snd (try_block module_scope env_prompt TC001)))"
    using expect_raises_name_error [OF m surjective_pairing, of env_prompt] l e by blast
  then show ?thesis using m c by simp
qed


section \<open>The authored failure message (C7)\<close>

text \<open>
  C7. Claimed: when the target of the terminal assertion does not show within its
  timeout, the run fails with the assertion's authored message.

  TC001, lines 88-93, in a run where every call returns and the expected text never
  shows: line 91 raises \<open>NameError\<close> for \<open>expect\<close>, the handler of line 92 is not entered, and
  the message of line 93 is never raised. Were \<open>expect\<close> bound to Playwright's, the same run
  would raise \<open>AssertionError\<close> with the authored message, as the handler intends.
\<close>

theorem authored_message_not_raised:
  "fst (run_test module_scope env_never_visible TC001) = Some (NameError ''expect'') \<and>
   fst (run_test (''expect'' # module_scope) env_never_visible TC001) =
     Some (AssertionError TC001_message)"
  by (simp add: script_defs run_rules env_never_visible_def cong: and_then_cong)

section \<open>Exit status (C8)\<close>

lemma parse_code: "parse (map Code body) = Inr body"
  by (induction body) auto

lemma parse_append_code:
  "parse (map Code body @ rest) =
     (case parse rest of Inl e \<Rightarrow> Inl e | Inr ss \<Rightarrow> Inr (body @ ss))"
  by (induction body) (auto split: sum.splits)

text \<open>
  C8. Claimed: exit code 0 when the run passed, 1 when it failed, 2 when it errored.

  What running a file gives: \<open>asyncio.run(run_test())\<close> is the last statement of the module
  and nothing catches what it raises, so the status is 0 when \<open>run_test\<close> returns and 1 when
  any exception escapes, a failed assertion and an infrastructure error alike. No run
  exits with 2.
\<close>

theorem exit_status_zero_or_one:
  "main src env = (if fst (invoke src env) = None then 0 else 1) \<and> main src env \<noteq> 2"
  by (simp add: main_def exit_status_def split: option.splits)

text \<open>TC007 when every call returns and the text is visible: status 0.\<close>

theorem exit_status_zero_or_one_witness:
  "fst (invoke TC007_file env_prompt) = None \<and> main TC007_file env_prompt = 0"
proof -
  have "fst (invoke TC007_file env_prompt) = None"
    by (simp add: invoke_def TC007_file_def parse_code script_defs run_rules env_prompt_def
          cong: and_then_cong)
  then show ?thesis using exit_status_zero_or_one [of TC007_file env_prompt] by simp
qed

text \<open>
  TC001 when the browser cannot be launched (line 14 raises): an infrastructure error,
  and the status is 1.
\<close>

theorem launch_failure_exits_with_one:
  "fst (invoke TC001_file env_no_browser) = Some DriverFailure \<and>
   main TC001_file env_no_browser = 1"
  by (simp add: main_def exit_status_def invoke_def TC001_file_def parse_code
        script_defs run_rules env_no_browser_def cong: and_then_cong)

section \<open>The fence lines of TC003 (C10)\<close>

lemma filter_code: "filter (\<lambda>l. l \<noteq> Verbatim t) (map Code body) = map Code body"
  by (induction body) auto

text \<open>Without its two fence lines the file compiles, to the statements \<open>TC003\<close>.\<close>

lemma TC003_without_fences:
  "parse (filter (\<lambda>l. l \<noteq> Verbatim fence) TC003_file) = Inr TC003"
proof -
  have "''        # --> Assertions to verify final state'' \<noteq> fence"
    by (simp add: fence_def)
  moreover have "blank_or_comment ''        # --> Assertions to verify final state''"
    by (simp add: blank_or_comment_def)
  ultimately show ?thesis
    by (simp add: TC003_file_def TC003_def filter_code parse_append_code
          del: map_append append_assoc)
qed

text \<open>
  C10. Lines 336 and 341 of TC003 are fence lines of three backquotes inside the function
  body. The file does not compile: every invocation ends with \<open>SyntaxError\<close> and status 1,
  before any call is made and before any resource is acquired.
\<close>

theorem TC003_does_not_compile:
  "parse TC003_file = Inl SyntaxError \<and>
   invoke TC003_file env = (Some SyntaxError, initial) \<and>
   trace (snd (invoke TC003_file env)) = [] \<and>
   live (snd (invoke TC003_file env)) = {} \<and>
   main TC003_file env = 1"
proof -
  have f: "\<not> blank_or_comment fence" by (simp add: fence_def blank_or_comment_def)
  have c: "blank_or_comment ''        # --> Assertions to verify final state''"
    by (simp add: blank_or_comment_def)
  have p: "parse TC003_file = Inl SyntaxError"
    unfolding TC003_file_def parse_append_code using f c by simp
  then show ?thesis by (simp add: invoke_def main_def exit_status_def initial_def)
qed


end
